theory Spec2Isabelle
  imports Complex_Main "HOL-Library.Word"
begin

unbundle bit_operations_syntax

section \<open>JavaScript strings\<close>

text \<open>
  A JavaScript string is a sequence of 16-bit code units. \<open>js\<close> embeds an ASCII literal
  of the source, \<open>ch\<close> a single character of one.
\<close>

type_synonym jsstring = "16 word list"

definition js :: "string \<Rightarrow> jsstring" where
  "js s = map of_char s"

definition ch :: "char \<Rightarrow> 16 word" where
  "ch c = of_char c"

definition startsWith :: "jsstring \<Rightarrow> jsstring \<Rightarrow> bool" where
  "startsWith s p = (take (length p) s = p)"

text \<open>
  \<open>String.prototype.trim\<close> removes the ECMAScript WhiteSpace and LineTerminator code
  units from both ends: TAB, LF, VT, FF, CR, SPACE, NBSP, the Unicode space separators,
  LS, PS and the byte order mark.
\<close>

definition isTrimSpace :: "16 word \<Rightarrow> bool" where
  "isTrimSpace c =
     (c \<in> set [0x9, 0xA, 0xB, 0xC, 0xD, 0x20, 0xA0, 0x1680, 0x2028, 0x2029,
                0x202F, 0x205F, 0x3000, 0xFEFF]
      \<or> (0x2000 \<le> c \<and> c \<le> 0x200A))"

definition trim :: "jsstring \<Rightarrow> jsstring" where
  "trim s = rev (dropWhile isTrimSpace (rev (dropWhile isTrimSpace s)))"

text \<open>
  \<open>text.replace(/```json|```/g, '')\<close> of \<open>lookupWord\<close>: the regular expression carries
  the global flag, so every match is removed, scanning from the left; at each position the
  alternative \<open>```json\<close> is tried before \<open>```\<close>.
\<close>

fun replace_fences :: "jsstring \<Rightarrow> jsstring" where
  "replace_fences [] = []"
| "replace_fences (c # cs) =
     (if startsWith (c # cs) (js ''```json'') then replace_fences (drop 6 cs)
      else if startsWith (c # cs) (js ''```'') then replace_fences (drop 2 cs)
      else c # replace_fences cs)"

section \<open>JavaScript values and \<open>JSON.parse\<close>\<close>

text \<open>
  The values \<open>JSON.parse\<close> can return, and \<open>undefined\<close>. An object keeps its members
  as written (a later duplicate key wins at lookup). A number is kept as the exact value
  of its literal; the rounding of that value to an IEEE double is not modelled, and no
  theorem below depends on it.

  \<open>JSON.parse\<close> is the platform's: its model follows the JSON grammar of ECMA-404, a
  lexer (a state machine over the code units) followed by a pushdown recogniser over the
  tokens. \<open>None\<close> stands for the \<open>SyntaxError\<close> it throws.
\<close>

datatype jsval =
    Undefined | Null | Bool bool | Num rat | Str jsstring
  | Arr "jsval list" | Obj "(jsstring \<times> jsval) list"

datatype token =
    TLBrace | TRBrace | TLBrack | TRBrack | TColon | TComma
  | TStr jsstring | TWord jsstring

datatype lstate =
    LStart | LWord jsstring | LStr jsstring | LEsc jsstring | LHex jsstring "nat list"

definition isJsonSpace :: "16 word \<Rightarrow> bool" where
  "isJsonSpace c = (c \<in> set [0x9, 0xA, 0xD, 0x20])"

definition isDigit :: "16 word \<Rightarrow> bool" where
  "isDigit c = (ch CHR ''0'' \<le> c \<and> c \<le> ch CHR ''9'')"

definition isWordChar :: "16 word \<Rightarrow> bool" where
  "isWordChar c =
     (isDigit c \<or> (ch CHR ''a'' \<le> c \<and> c \<le> ch CHR ''z'')
      \<or> (ch CHR ''A'' \<le> c \<and> c \<le> ch CHR ''Z'')
      \<or> c \<in> set [ch CHR ''+'', ch CHR ''-'', ch CHR ''.''])"

definition punct :: "16 word \<Rightarrow> token option" where
  "punct c =
     (if c = ch CHR ''{'' then Some TLBrace else if c = ch CHR ''}'' then Some TRBrace
      else if c = ch CHR ''['' then Some TLBrack else if c = ch CHR '']'' then Some TRBrack
      else if c = ch CHR '':'' then Some TColon else if c = ch CHR '','' then Some TComma
      else None)"

definition escape :: "16 word \<Rightarrow> 16 word option" where
  "escape c =
     (if c = 0x22 then Some 0x22 else if c = 0x5C then Some 0x5C
      else if c = ch CHR ''/'' then Some (ch CHR ''/'')
      else if c = ch CHR ''b'' then Some 0x8 else if c = ch CHR ''f'' then Some 0xC
      else if c = ch CHR ''n'' then Some 0xA else if c = ch CHR ''r'' then Some 0xD
      else if c = ch CHR ''t'' then Some 0x9 else None)"

definition hexval :: "16 word \<Rightarrow> nat option" where
  "hexval c =
     (if isDigit c then Some (unat c - 48)
      else if ch CHR ''a'' \<le> c \<and> c \<le> ch CHR ''f'' then Some (unat c - 87)
      else if ch CHR ''A'' \<le> c \<and> c \<le> ch CHR ''F'' then Some (unat c - 55)
      else None)"

definition consT :: "token \<Rightarrow> token list option \<Rightarrow> token list option" where
  "consT t r = map_option (Cons t) r"

fun lexer :: "lstate \<Rightarrow> jsstring \<Rightarrow> token list option" where
  "lexer LStart [] = Some []"
| "lexer (LWord w) [] = Some [TWord (rev w)]"
| "lexer (LStr acc) [] = None"
| "lexer (LEsc acc) [] = None"
| "lexer (LHex acc ds) [] = None"
| "lexer LStart (c # cs) =
     (if isJsonSpace c then lexer LStart cs
      else case punct c of
        Some t \<Rightarrow> consT t (lexer LStart cs)
      | None \<Rightarrow>
          if c = 0x22 then lexer (LStr []) cs
          else if isWordChar c then lexer (LWord [c]) cs
          else None)"
| "lexer (LWord w) (c # cs) =
     (if isWordChar c then lexer (LWord (c # w)) cs
      else if isJsonSpace c then consT (TWord (rev w)) (lexer LStart cs)
      else case punct c of
        Some t \<Rightarrow> consT (TWord (rev w)) (consT t (lexer LStart cs))
      | None \<Rightarrow>
          if c = 0x22 then consT (TWord (rev w)) (lexer (LStr []) cs)
          else None)"
| "lexer (LStr acc) (c # cs) =
     (if c = 0x22 then consT (TStr (rev acc)) (lexer LStart cs)
      else if c = 0x5C then lexer (LEsc acc) cs
      else if c < 0x20 then None
      else lexer (LStr (c # acc)) cs)"
| "lexer (LEsc acc) (c # cs) =
     (case escape c of
        Some e \<Rightarrow> lexer (LStr (e # acc)) cs
      | None \<Rightarrow> if c = ch CHR ''u'' then lexer (LHex acc []) cs else None)"
| "lexer (LHex acc ds) (c # cs) =
     (case hexval c of
        None \<Rightarrow> None
      | Some d \<Rightarrow>
          if length ds = 3
          then lexer (LStr (of_nat (foldl (\<lambda>n x. 16 * n + x) 0 (ds @ [d])) # acc)) cs
          else lexer (LHex acc (ds @ [d])) cs)"

definition digitsVal :: "jsstring \<Rightarrow> nat" where
  "digitsVal ds = foldl (\<lambda>n c. 10 * n + (unat c - 48)) 0 ds"

definition scale10 :: "rat \<Rightarrow> int \<Rightarrow> rat" where
  "scale10 m e = (if 0 \<le> e then m * 10 ^ nat e else m / 10 ^ nat (- e))"

definition parse_exponent :: "jsstring \<Rightarrow> int option" where
  "parse_exponent s =
     (case s of
        [] \<Rightarrow> Some 0
      | c # r \<Rightarrow>
          if c = ch CHR ''e'' \<or> c = ch CHR ''E'' then
            (let neg = (take 1 r = [ch CHR ''-'']);
                 ds = (if take 1 r = [ch CHR ''-''] \<or> take 1 r = [ch CHR ''+''] then drop 1 r else r)
             in if ds \<noteq> [] \<and> list_all isDigit ds
                then Some (if neg then - int (digitsVal ds) else int (digitsVal ds))
                else None)
          else None)"

definition parse_fraction :: "jsstring \<Rightarrow> (jsstring \<times> jsstring) option" where
  "parse_fraction s =
     (if take 1 s = [ch CHR ''.''] then
        (let fp = takeWhile isDigit (drop 1 s)
         in if fp = [] then None else Some (fp, dropWhile isDigit (drop 1 s)))
      else Some ([], s))"

definition parse_number :: "jsstring \<Rightarrow> rat option" where
  "parse_number s =
     (let neg = (take 1 s = [ch CHR ''-'']);
          s1 = (if neg then drop 1 s else s);
          ip = takeWhile isDigit s1
      in if ip = [] \<or> (1 < length ip \<and> take 1 ip = [ch CHR ''0'']) then None
         else case parse_fraction (dropWhile isDigit s1) of
           None \<Rightarrow> None
         | Some (fp, s3) \<Rightarrow>
             (case parse_exponent s3 of
                None \<Rightarrow> None
              | Some e \<Rightarrow>
                  Some ((if neg then - 1 else 1)
                        * scale10 (of_nat (digitsVal (ip @ fp))) (e - int (length fp)))))"

definition scalar_of_word :: "jsstring \<Rightarrow> jsval option" where
  "scalar_of_word w =
     (if w = js ''true'' then Some (Bool True)
      else if w = js ''false'' then Some (Bool False)
      else if w = js ''null'' then Some Null
      else map_option Num (parse_number w))"

datatype frame =
    FArr "jsval list"
  | FObj "(jsstring \<times> jsval) list"
  | FKey "(jsstring \<times> jsval) list" jsstring

datatype pstate = PValue | PValueOrClose | PKeyOrClose | PKey | PColon | PAfter | PDone jsval

definition complete :: "jsval \<Rightarrow> frame list \<Rightarrow> (pstate \<times> frame list) option" where
  "complete v st =
     (case st of
        [] \<Rightarrow> Some (PDone v, [])
      | FArr acc # r \<Rightarrow> Some (PAfter, FArr (v # acc) # r)
      | FKey ms k # r \<Rightarrow> Some (PAfter, FObj ((k, v) # ms) # r)
      | FObj ms # r \<Rightarrow> None)"

definition value_token :: "token \<Rightarrow> frame list \<Rightarrow> (pstate \<times> frame list) option" where
  "value_token t st =
     (case t of
        TLBrack \<Rightarrow> Some (PValueOrClose, FArr [] # st)
      | TLBrace \<Rightarrow> Some (PKeyOrClose, FObj [] # st)
      | TStr s \<Rightarrow> complete (Str s) st
      | TWord w \<Rightarrow> (case scalar_of_word w of None \<Rightarrow> None | Some v \<Rightarrow> complete v st)
      | _ \<Rightarrow> None)"

definition close_arr :: "frame list \<Rightarrow> (pstate \<times> frame list) option" where
  "close_arr st = (case st of FArr acc # r \<Rightarrow> complete (Arr (rev acc)) r | _ \<Rightarrow> None)"

definition close_obj :: "frame list \<Rightarrow> (pstate \<times> frame list) option" where
  "close_obj st = (case st of FObj ms # r \<Rightarrow> complete (Obj (rev ms)) r | _ \<Rightarrow> None)"

definition key_token :: "token \<Rightarrow> frame list \<Rightarrow> (pstate \<times> frame list) option" where
  "key_token t st =
     (case (t, st) of
        (TStr k, FObj ms # r) \<Rightarrow> Some (PColon, FKey ms k # r)
      | _ \<Rightarrow> None)"

fun pstep :: "pstate \<Rightarrow> frame list \<Rightarrow> token \<Rightarrow> (pstate \<times> frame list) option" where
  "pstep PValue st t = value_token t st"
| "pstep PValueOrClose st t = (if t = TRBrack then close_arr st else value_token t st)"
| "pstep PKeyOrClose st t = (if t = TRBrace then close_obj st else key_token t st)"
| "pstep PKey st t = key_token t st"
| "pstep PColon st t = (if t = TColon then Some (PValue, st) else None)"
| "pstep PAfter st t =
     (case st of
        FArr acc # r \<Rightarrow>
          (if t = TComma then Some (PValue, st)
           else if t = TRBrack then close_arr st else None)
      | FObj ms # r \<Rightarrow>
          (if t = TComma then Some (PKey, st)
           else if t = TRBrace then close_obj st else None)
      | _ \<Rightarrow> None)"
| "pstep (PDone v) st t = None"

fun prun :: "pstate \<Rightarrow> frame list \<Rightarrow> token list \<Rightarrow> jsval option" where
  "prun p st [] = (case p of PDone v \<Rightarrow> Some v | _ \<Rightarrow> None)"
| "prun p st (t # ts) =
     (case pstep p st t of None \<Rightarrow> None | Some (p', st') \<Rightarrow> prun p' st' ts)"

definition JSON_parse :: "jsstring \<Rightarrow> jsval option" where
  "JSON_parse s = (case lexer LStart s of None \<Rightarrow> None | Some ts \<Rightarrow> prun PValue [] ts)"

section \<open>The lookup client (services/geminiService.ts)\<close>

datatype mode = EN | CN

text \<open>
  What \<open>ai.models.generateContent\<close> does for a request: the promise rejects, or it
  resolves to a response whose \<open>text\<close> is a string or \<open>undefined\<close>.
\<close>

datatype service_reply = Rejected | Reply "jsstring option"

text \<open>
  The two ways \<open>lookupWord\<close> fails: the rejection of the request passes through
  (\<open>RequestFailed\<close>), and everything thrown inside its \<open>try\<close> block is replaced by
  \<open>new Error("Invalid response format from AI mentor. ...")\<close> (\<open>InvalidResponse\<close>).
\<close>

datatype lookup_error = RequestFailed | InvalidResponse

text \<open>
  The \<open>try\<close> block of \<open>lookupWord\<close>, lines 52 to 60. \<open>jsonStr\<close> is the string handed
  to \<open>JSON.parse\<close>; a response without text makes \<open>response.text.trim()\<close> throw inside
  the block.
\<close>

definition jsonStr :: "jsstring \<Rightarrow> jsstring" where
  "jsonStr t =
     (let text = trim t
      in if startsWith text (js ''```json'') then replace_fences text else text)"

definition parse_response :: "jsstring option \<Rightarrow> lookup_error + jsval" where
  "parse_response rt =
     (case rt of
        None \<Rightarrow> Inl InvalidResponse
      | Some t \<Rightarrow>
          (case JSON_parse (jsonStr t) of
             None \<Rightarrow> Inl InvalidResponse
           | Some v \<Rightarrow> Inr v))"

definition lookupWord ::
  "(jsstring \<Rightarrow> mode \<Rightarrow> service_reply) \<Rightarrow> jsstring \<Rightarrow> mode \<Rightarrow> lookup_error + jsval" where
  "lookupWord service w m =
     (case service w m of
        Rejected \<Rightarrow> Inl RequestFailed
      | Reply rt \<Rightarrow> parse_response rt)"

text \<open>
  The older \<open>lookupWord\<close> of the single-file application (src/unnamed/part_000, lines 86
  to 126): no mode, and \<open>JSON.parse(response.text.trim())\<close> with no fence handling.
\<close>

definition lookupWord0 :: "(jsstring \<Rightarrow> service_reply) \<Rightarrow> jsstring \<Rightarrow> lookup_error + jsval" where
  "lookupWord0 service0 w =
     (case service0 w of
        Rejected \<Rightarrow> Inl RequestFailed
      | Reply None \<Rightarrow> Inl InvalidResponse
      | Reply (Some t) \<Rightarrow>
          (case JSON_parse (trim t) of None \<Rightarrow> Inl InvalidResponse | Some v \<Rightarrow> Inr v))"

text \<open>
  Modelled from the spec: a response payload "wrapped as \<open>```json ... ```\<close>", the
  content on lines of its own between the opening fence with its language tag and the
  closing fence. The service writes it; no code of the repository does.
\<close>

definition fenced :: "jsstring \<Rightarrow> jsstring" where
  "fenced t = js ''```json'' @ [0xA] @ t @ [0xA] @ js ''```''"


section \<open>The application state (App.tsx)\<close>

record HistoryItem =
  word :: jsval
  timestamp :: int

text \<open>
  \<open>a === b\<close> where \<open>a\<close> is a history entry's word and \<open>b\<close> the word of a freshly parsed
  response: primitives are compared by value; an object or an array is compared by
  reference, and a freshly parsed one is no object of the history.
\<close>

fun strict_eq :: "jsval \<Rightarrow> jsval \<Rightarrow> bool" where
  "strict_eq Undefined Undefined = True"
| "strict_eq Null Null = True"
| "strict_eq (Bool a) (Bool b) = (a = b)"
| "strict_eq (Num a) (Num b) = (a = b)"
| "strict_eq (Str a) (Str b) = (a = b)"
| "strict_eq a b = False"

text \<open>
  \<open>data.word\<close>: a \<open>TypeError\<close> (\<open>None\<close>) on \<open>null\<close> and \<open>undefined\<close>, the member of an
  object (the last one of that name), and \<open>undefined\<close> where there is none; strings,
  numbers, booleans and arrays have no property of that name.
\<close>

definition dot_word :: "jsval \<Rightarrow> jsval option" where
  "dot_word d =
     (case d of
        Undefined \<Rightarrow> None
      | Null \<Rightarrow> None
      | Obj ms \<Rightarrow> Some (case map_of (rev ms) (js ''word'') of None \<Rightarrow> Undefined | Some v \<Rightarrow> v)
      | _ \<Rightarrow> Some Undefined)"

datatype request = Lookup jsstring mode | Lookup0 jsstring

text \<open>The exceptions of the platform that the components meet.\<close>

datatype exn =
    TypeError | RangeError | InvalidCharacterError | NotSupportedError | InvalidStateError
  | QuotaExceededError | ServiceError

datatype rstatus = Created | Active | Stopped

record Recognizer =
  lang :: string
  interimResults :: bool
  maxAlternatives :: nat
  status :: rstatus

datatype speech_call = StopCall nat | StartCall nat

text \<open>
  The state of \<open>App\<close>: its \<open>useState\<close> cells and the \<open>recognitionRef\<close>, and what the
  component does to the world: the item \<open>linguist_history\<close> of \<open>localStorage\<close> (the list
  handed to \<open>JSON.stringify\<close>; \<open>None\<close> while the key is absent), the requests sent to the
  lookup service, the alerts shown, the lines written by \<open>console.error\<close>, the
  recognizer instances created so far (a recognizer is named by its position) and the
  calls of \<open>stop()\<close> and \<open>start()\<close> made on them, in order. A recognizer is \<open>Active\<close>
  from \<open>start()\<close> until \<open>stop()\<close> is called on it or the platform ends it.
  \<open>setItemThrows\<close> says whether \<open>localStorage.setItem\<close> throws (the quota is used
  up, or the storage is disabled).
\<close>

record AppState =
  query :: jsval
  loading :: bool
  result :: jsval
  history :: "HistoryItem list"
  isListening :: bool
  transcriptFeedback :: jsstring
  searchMode :: mode
  recognitionRef :: "nat option"
  recognizers :: "Recognizer list"
  speechCalls :: "speech_call list"
  localStorage_history :: "HistoryItem list option"
  setItemThrows :: bool
  requests :: "request list"
  alerts :: "string list"
  console :: "string list"

definition initialState :: AppState where
  "initialState =
     \<lparr>query = Str [], loading = False, result = Null, history = [], isListening = False,
      transcriptFeedback = [], searchMode = EN, recognitionRef = None, recognizers = [],
      speechCalls = [], localStorage_history = None, setItemThrows = False, requests = [],
      alerts = [], console = []\<rparr>"

text \<open>
  \<open>addToHistory\<close>, lines 33 to 38. The \<open>history\<close> it reads is the constant of the
  render in which the handler was made, \<open>hist\<close> here, which is not the state's list once
  another record has completed since that render. \<open>now\<close> is what \<open>Date.now()\<close> returns.
  \<open>setHistory\<close> takes the new list; then \<open>localStorage.setItem\<close> writes it, or throws.
\<close>

definition addToHistory ::
  "HistoryItem list \<Rightarrow> jsval \<Rightarrow> int \<Rightarrow> AppState \<Rightarrow> exn option \<times> AppState" where
  "addToHistory hist w now s =
     (let newItem = \<lparr>word = w, timestamp = now\<rparr>;
          updated = take 50 (newItem # filter (\<lambda>h. \<not> strict_eq (word h) w) hist);
          s1 = s\<lparr>history := updated\<rparr>
      in if setItemThrows s then (Some QuotaExceededError, s1)
         else (None, s1\<lparr>localStorage_history := Some updated\<rparr>))"

text \<open>The \<open>catch\<close> and \<open>finally\<close> blocks of \<open>performSearch\<close>.\<close>

definition search_failed :: "string \<Rightarrow> AppState \<Rightarrow> AppState" where
  "search_failed err s =
     s\<lparr>console := console s @ [err],
       alerts := alerts s @ [''Search failed. The AI might be busy or the query was unclear.''],
       loading := False\<rparr>"

definition error_text :: "lookup_error \<Rightarrow> string" where
  "error_text e =
     (case e of
        RequestFailed \<Rightarrow> ''request rejected''
      | InvalidResponse \<Rightarrow> ''Invalid response format from AI mentor. Please try a different query.'')"

text \<open>
  \<open>performSearch\<close>, lines 40 to 57, in the two parts that \<open>await\<close> separates.
  \<open>performSearch_begin\<close> is what runs at once for a query that is not blank, up to the
  request. \<open>performSearch_resume\<close> is what runs when \<open>lookupWord\<close> has settled with
  \<open>outcome\<close>: \<open>hist\<close> is the history list of the render in which this \<open>performSearch\<close>
  was made, \<open>s\<close> the state by then.
\<close>

definition performSearch_begin :: "jsstring \<Rightarrow> mode \<Rightarrow> AppState \<Rightarrow> AppState" where
  "performSearch_begin trimmed m s =
     s\<lparr>loading := True, transcriptFeedback := [],
       requests := requests s @ [Lookup trimmed m]\<rparr>"

definition performSearch_resume ::
  "HistoryItem list \<Rightarrow> lookup_error + jsval \<Rightarrow> int \<Rightarrow> AppState \<Rightarrow> AppState" where
  "performSearch_resume hist outcome now s =
     (case outcome of
        Inl e \<Rightarrow>
          search_failed (error_text e)
            (if e = InvalidResponse
             then s\<lparr>console := console s @ [''Failed to parse Gemini response'']\<rparr>
             else s)
      | Inr data \<Rightarrow>
          (case dot_word data of
             None \<Rightarrow> search_failed ''TypeError'' (s\<lparr>result := data\<rparr>)
           | Some w \<Rightarrow>
               (case addToHistory hist w now (s\<lparr>result := data\<rparr>) of
                  (Some e, s1) \<Rightarrow> search_failed ''QuotaExceededError'' s1
                | (None, s1) \<Rightarrow> s1\<lparr>query := w, loading := False\<rparr>)))"

text \<open>
  \<open>performSearch\<close> called in the latest render and run to completion with nothing
  happening in between: \<open>service\<close> answers the request it is sent, \<open>now\<close> is the clock.
\<close>

definition performSearch ::
  "(jsstring \<Rightarrow> mode \<Rightarrow> service_reply) \<Rightarrow> int \<Rightarrow> jsstring \<Rightarrow> mode \<Rightarrow> AppState \<Rightarrow> AppState" where
  "performSearch service now searchQuery m s =
     (let trimmed = trim searchQuery in
      if trimmed = [] then s
      else performSearch_resume (history s) (lookupWord service trimmed m) now
             (performSearch_begin trimmed m s))"

text \<open>
  \<open>handleSearch\<close> of the single-file application (src/unnamed/part_000, lines 249 to
  264), which updates the history in line; the form is its only caller, and the submit
  button is disabled while \<open>loading\<close> is set. A \<open>query\<close> that is no string makes
  \<open>query.trim()\<close> throw before anything is done.
\<close>

definition handleSearch :: "(jsstring \<Rightarrow> service_reply) \<Rightarrow> int \<Rightarrow> AppState \<Rightarrow> AppState" where
  "handleSearch service0 now s =
     (case query s of
        Str q \<Rightarrow>
          if trim q = [] then s
          else
            (let s1 = s\<lparr>loading := True, requests := requests s @ [Lookup0 q]\<rparr>
             in case lookupWord0 service0 q of
                  Inl e \<Rightarrow>
                    (if e = InvalidResponse
                     then s1\<lparr>console := console s1 @ [''Failed to parse Gemini response'']\<rparr>
                     else s1)
                    \<lparr>alerts := alerts s1 @ [''Failed to analyze word. Check your network or try again.''],
                      loading := False\<rparr>
                | Inr data \<Rightarrow>
                    (case dot_word data of
                       None \<Rightarrow>
                         s1\<lparr>result := data,
                            alerts := alerts s1 @ [''Failed to analyze word. Check your network or try again.''],
                            loading := False\<rparr>
                     | Some w \<Rightarrow>
                         (let updatedHistory =
                                take 50 (\<lparr>word = w, timestamp = now\<rparr>
                                         # filter (\<lambda>h. \<not> strict_eq (word h) w) (history s));
                              s2 = s1\<lparr>result := data, history := updatedHistory\<rparr>
                          in if setItemThrows s
                             then s2\<lparr>alerts := alerts s1 @ [''Failed to analyze word. Check your network or try again.''],
                                    loading := False\<rparr>
                             else s2\<lparr>localStorage_history := Some updatedHistory,
                                    loading := False\<rparr>)))
      | _ \<Rightarrow> s)"

text \<open>
  A run of record operations. Each one completes a lookup: its \<open>age\<close>, the number of
  records that completed since the render in which its \<open>performSearch\<close> was made, its
  word, and the clock's reading. It reads the history list of that render: \<open>seen\<close> holds
  the lists of the earlier renders, the latest first, and an age beyond the first render
  reads the first list. \<open>record_all\<close> is the run in which no two lookups overlap: every
  age is 0.
\<close>

fun record_run :: "(nat \<times> jsstring \<times> int) list \<Rightarrow> HistoryItem list list \<Rightarrow> AppState \<Rightarrow> AppState" where
  "record_run [] seen s = s"
| "record_run ((age, w, t) # ops) seen s =
     record_run ops (history s # seen)
       (snd (addToHistory ((history s # seen) ! min age (length seen)) (Str w) t s))"

definition record_all :: "(jsstring \<times> int) list \<Rightarrow> AppState \<Rightarrow> AppState" where
  "record_all ops s = record_run (map (\<lambda>(w, t). (0, w, t)) ops) [] s"

section \<open>Voice input (App.tsx)\<close>

text \<open>
  \<open>stop()\<close> on a recognizer: one that is listening stops; on any other it does nothing.
  \<open>ended\<close> is the platform ending a recognizer by itself.
\<close>

definition stop_recognizer :: "nat \<Rightarrow> Recognizer list \<Rightarrow> Recognizer list" where
  "stop_recognizer i rs =
     (if i < length rs \<and> status (rs ! i) = Active then rs[i := (rs ! i)\<lparr>status := Stopped\<rparr>]
      else rs)"

definition ended :: "nat \<Rightarrow> Recognizer list \<Rightarrow> Recognizer list" where
  "ended i rs = (if i < length rs then rs[i := (rs ! i)\<lparr>status := Stopped\<rparr>] else rs)"

text \<open>
  \<open>startVoiceSearch\<close>, lines 64 to 111; \<open>supported\<close> says whether the browser has
  \<open>SpeechRecognition\<close> or \<open>webkitSpeechRecognition\<close>.
\<close>

definition startVoiceSearch :: "bool \<Rightarrow> AppState \<Rightarrow> AppState" where
  "startVoiceSearch supported s =
     (if \<not> supported
      then s\<lparr>alerts := alerts s @ [''Voice search is not supported in this browser.'']\<rparr>
      else
        (let s1 = (case recognitionRef s of
                     None \<Rightarrow> s
                   | Some i \<Rightarrow> s\<lparr>recognizers := stop_recognizer i (recognizers s),
                                 speechCalls := speechCalls s @ [StopCall i]\<rparr>);
             recognition = \<lparr>lang = (if searchMode s = EN then ''en-US'' else ''zh-CN''),
                            interimResults = True, maxAlternatives = 1, status = Created\<rparr>;
             n = length (recognizers s1)
         in s1\<lparr>recognitionRef := Some n,
               recognizers := recognizers s1 @ [recognition\<lparr>status := Active\<rparr>],
               speechCalls := speechCalls s1 @ [StartCall n]\<rparr>))"

text \<open>The handlers \<open>onstart\<close>, \<open>onend\<close> and \<open>onerror\<close>, lines 80 to 93.\<close>

definition onstart :: "AppState \<Rightarrow> AppState" where
  "onstart s = s\<lparr>isListening := True, transcriptFeedback := js ''Listening...''\<rparr>"

definition onend :: "AppState \<Rightarrow> AppState" where
  "onend s = s\<lparr>isListening := False\<rparr>"

definition onerror :: "jsstring \<Rightarrow> AppState \<Rightarrow> AppState" where
  "onerror code s =
     s\<lparr>console := console s @ [''Speech recognition error''], isListening := False,
       transcriptFeedback := js ''Error: '' @ code\<rparr>"

text \<open>
  What happens to the application, one event at a time: the microphone button, the
  platform's \<open>start\<close>, \<open>end\<close> and \<open>error\<close> events of a recognizer, and a search.
\<close>

datatype event =
    StartVoiceSearch bool
  | RecognitionStarted nat
  | RecognitionEnded nat
  | RecognitionError nat jsstring
  | Search "jsstring \<Rightarrow> mode \<Rightarrow> service_reply" int jsstring mode

fun step :: "event \<Rightarrow> AppState \<Rightarrow> AppState" where
  "step (StartVoiceSearch supported) s = startVoiceSearch supported s"
| "step (RecognitionStarted i) s = onstart s"
| "step (RecognitionEnded i) s = onend (s\<lparr>recognizers := ended i (recognizers s)\<rparr>)"
| "step (RecognitionError i code) s = onerror code s"
| "step (Search service now q m) s = performSearch service now q m s"

definition run :: "event list \<Rightarrow> AppState \<Rightarrow> AppState" where
  "run evs s = fold step evs s"

definition active :: "AppState \<Rightarrow> nat \<Rightarrow> bool" where
  "active s i = (i < length (recognizers s) \<and> status (recognizers s ! i) = Active)"

text \<open>The invariant of the voice input: a recognizer that is active is the one of the ref.\<close>

definition ref_is_latest :: "AppState \<Rightarrow> bool" where
  "ref_is_latest s = (\<forall>i. active s i \<longrightarrow> recognitionRef s = Some i)"

section \<open>Audio generation (services/geminiService.ts)\<close>

text \<open>
  How a promise settles. \<open>generateAudio\<close> and \<open>handleReadAloud\<close> are \<open>async\<close>: an
  exception that leaves the body rejects the promise.
\<close>

datatype 'a settled = Fulfilled 'a | RejectedWith exn

text \<open>
  What the audio request does: it rejects, or resolves to a response in which
  \<open>candidates?.[0]?.content?.parts?.[0]?.inlineData?.data\<close> is a string or \<open>undefined\<close>.
\<close>

datatype tts_reply = TtsRejected | TtsReply "jsstring option"

definition tts_prompt :: "jsstring \<Rightarrow> jsstring" where
  "tts_prompt text =
     js ''You are a helpful language teacher. Read the following text naturally and clearly, pausing briefly between English and Chinese sections: ''
     @ text"

text \<open>
  \<open>generateAudio\<close>, lines 63 to 84: the body of the \<open>try\<close>, then the \<open>catch\<close>. The second
  component is what \<open>console.error\<close> wrote.
\<close>

definition generateAudio_try :: "(jsstring \<Rightarrow> tts_reply) \<Rightarrow> jsstring \<Rightarrow> jsstring option settled" where
  "generateAudio_try tts text =
     (case tts (tts_prompt text) of
        TtsRejected \<Rightarrow> RejectedWith ServiceError
      | TtsReply d \<Rightarrow> Fulfilled d)"

definition generateAudio ::
  "(jsstring \<Rightarrow> tts_reply) \<Rightarrow> jsstring \<Rightarrow> jsstring option settled \<times> string list" where
  "generateAudio tts text =
     (case generateAudio_try tts text of
        Fulfilled d \<Rightarrow> (Fulfilled d, [])
      | RejectedWith e \<Rightarrow> (Fulfilled None, [''TTS Generation failed'']))"

section \<open>Narration (components/WordDisplay.tsx)\<close>

subsection \<open>\<open>atob\<close>\<close>

text \<open>
  \<open>atob\<close> is the platform's forgiving base64 decoder: ASCII white space is removed;
  when the length is then a multiple of 4, one or two closing \<open>=\<close> are removed; a length
  of 1 modulo 4, or a code unit outside the alphabet, is an \<open>InvalidCharacterError\<close>
  (\<open>None\<close>); every four characters give three bytes, two closing characters give one
  byte and three give two, the surplus bits dropped. The result is a string with one code
  unit per byte.
\<close>

definition isAsciiSpace :: "16 word \<Rightarrow> bool" where
  "isAsciiSpace c = (c \<in> set [0x9, 0xA, 0xC, 0xD, 0x20])"

definition b64_value :: "16 word \<Rightarrow> nat option" where
  "b64_value c =
     (if ch CHR ''A'' \<le> c \<and> c \<le> ch CHR ''Z'' then Some (unat c - 65)
      else if ch CHR ''a'' \<le> c \<and> c \<le> ch CHR ''z'' then Some (unat c - 71)
      else if ch CHR ''0'' \<le> c \<and> c \<le> ch CHR ''9'' then Some (unat c + 4)
      else if c = ch CHR ''+'' then Some 62
      else if c = ch CHR ''/'' then Some 63
      else None)"

definition strip_padding :: "jsstring \<Rightarrow> jsstring" where
  "strip_padding d =
     (if length d mod 4 = 0 then
        (if 2 \<le> length d \<and> drop (length d - 2) d = js ''=='' then take (length d - 2) d
         else if 1 \<le> length d \<and> drop (length d - 1) d = js ''='' then take (length d - 1) d
         else d)
      else d)"

fun decode_sextets :: "nat list \<Rightarrow> nat list" where
  "decode_sextets (a # b # c # d # r) =
     (let n = a * 262144 + b * 4096 + c * 64 + d
      in [n div 65536, n div 256 mod 256, n mod 256] @ decode_sextets r)"
| "decode_sextets [a, b, c] =
     (let n = (a * 4096 + b * 64 + c) div 4 in [n div 256, n mod 256])"
| "decode_sextets [a, b] = [(a * 64 + b) div 16]"
| "decode_sextets r = []"

definition atob :: "jsstring \<Rightarrow> jsstring option" where
  "atob s =
     (let d = strip_padding (filter (\<lambda>c. \<not> isAsciiSpace c) s)
      in if length d mod 4 = 1 then None
         else case those (map b64_value d) of
                None \<Rightarrow> None
              | Some vs \<Rightarrow> Some (map of_nat (decode_sextets vs)))"

subsection \<open>The decode path\<close>

text \<open>
  \<open>decodeBase64\<close>, lines 23 to 31: the loop stores \<open>charCodeAt(i)\<close> in a \<open>Uint8Array\<close>.
\<close>

definition decodeBase64 :: "jsstring \<Rightarrow> exn + 8 word list" where
  "decodeBase64 base64 =
     (case atob base64 of
        None \<Rightarrow> Inl InvalidCharacterError
      | Some binaryString \<Rightarrow> Inr (map ucast binaryString))"

text \<open>
  \<open>new Int16Array(buffer)\<close>: a \<open>RangeError\<close> when the byte length is odd; otherwise the
  bytes are read in pairs, the low byte first (the byte order of every platform in use).
\<close>

fun le_pairs :: "8 word list \<Rightarrow> 16 word list" where
  "le_pairs (lo # hi # r) = (ucast lo OR push_bit 8 (ucast hi)) # le_pairs r"
| "le_pairs r = []"

definition Int16Array :: "8 word list \<Rightarrow> exn + 16 word list" where
  "Int16Array bytes = (if odd (length bytes) then Inl RangeError else Inr (le_pairs bytes))"

text \<open>
  An \<open>AudioBuffer\<close>. The samples are 32-bit floats in the source; the values stored here,
  a 16-bit integer divided by \<open>2\<^sup>1\<^sup>5\<close>, are floats exactly, so they are kept as rationals.
  \<open>createBuffer\<close> is the platform's: a \<open>NotSupportedError\<close> when an argument is zero (the
  platform's upper bounds are not reached by the values used here), otherwise a buffer of
  silence.
\<close>

record AudioBuffer =
  numberOfChannels :: nat
  bufferLength :: nat
  sampleRate :: nat
  channelData :: "rat list list"

definition createBuffer :: "nat \<Rightarrow> nat \<Rightarrow> nat \<Rightarrow> exn + AudioBuffer" where
  "createBuffer numChannels frameCount rate =
     (if numChannels = 0 \<or> frameCount = 0 \<or> rate = 0 then Inl NotSupportedError
      else Inr \<lparr>numberOfChannels = numChannels, bufferLength = frameCount, sampleRate = rate,
                channelData = replicate numChannels (replicate frameCount 0)\<rparr>)"

text \<open>\<open>decodeAudioData\<close>, lines 33 to 47.\<close>

definition decodeAudioData :: "8 word list \<Rightarrow> exn + AudioBuffer" where
  "decodeAudioData data =
     (case Int16Array data of
        Inl e \<Rightarrow> Inl e
      | Inr dataInt16 \<Rightarrow>
          (let numChannels = 1;
               rate = 24000;
               frameCount = length dataInt16 div numChannels
           in case createBuffer numChannels frameCount rate of
                Inl e \<Rightarrow> Inl e
              | Inr buffer \<Rightarrow>
                  Inr (buffer\<lparr>channelData :=
                         map (\<lambda>channel.
                                map (\<lambda>i. of_int (sint (dataInt16 ! (i * numChannels + channel))) / 32768)
                                  [0..<frameCount])
                           [0..<numChannels]\<rparr>)))"

text \<open>The first two lines of the \<open>try\<close> block of \<open>handleReadAloud\<close>, lines 81 and 82.\<close>

definition decode_path :: "jsstring \<Rightarrow> exn + AudioBuffer" where
  "decode_path base64Audio =
     (case decodeBase64 base64Audio of
        Inl e \<Rightarrow> Inl e
      | Inr audioData \<Rightarrow> decodeAudioData audioData)"

subsection \<open>The encoding the decode path is meant for\<close>

text \<open>
  Modelled from the spec: "a base64-encoded string of little-endian 16-bit signed PCM
  samples" is written by the audio service, not by the repository. \<open>pcm_bytes\<close> writes
  each sample low byte first, \<open>btoa\<close> is base64 with the standard alphabet and padding,
  and \<open>quantize\<close> turns a normalized sample into a 16-bit one, the inverse of the
  decoder's division by 32768: scale, round to the nearest integer, clamp.
\<close>

definition pcm_bytes :: "16 word list \<Rightarrow> 8 word list" where
  "pcm_bytes samples = concat (map (\<lambda>x. [ucast x, ucast (drop_bit 8 x)]) samples)"

definition b64_char :: "nat \<Rightarrow> 16 word" where
  "b64_char n =
     (if n < 26 then of_nat (n + 65)
      else if n < 52 then of_nat (n + 71)
      else if n < 62 then of_nat (n - 4)
      else if n = 62 then ch CHR ''+''
      else ch CHR ''/'')"

fun encode_bytes :: "nat list \<Rightarrow> jsstring" where
  "encode_bytes (a # b # c # r) =
     [b64_char (a div 4), b64_char (a mod 4 * 16 + b div 16),
      b64_char (b mod 16 * 4 + c div 64), b64_char (c mod 64)] @ encode_bytes r"
| "encode_bytes [a, b] =
     [b64_char (a div 4), b64_char (a mod 4 * 16 + b div 16), b64_char (b mod 16 * 4),
      ch CHR ''='']"
| "encode_bytes [a] = [b64_char (a div 4), b64_char (a mod 4 * 16), ch CHR ''='', ch CHR ''='']"
| "encode_bytes [] = []"

definition btoa :: "8 word list \<Rightarrow> jsstring" where
  "btoa bytes = encode_bytes (map unat bytes)"

definition quantize :: "rat \<Rightarrow> 16 word" where
  "quantize x = word_of_int (max (- 32768) (min 32767 (round (x * 32768))))"

subsection \<open>The playback state machine\<close>

text \<open>
  The properties of \<open>WordDefinition\<close> (types.ts), with a prefix: \<open>definition\<close> is no name
  in Isabelle, and \<open>word\<close> is the field of a history entry.
\<close>

record WordDefinition =
  wd_word :: jsstring
  wd_phonetic :: jsstring
  wd_partOfSpeech :: jsstring
  wd_definition :: jsstring
  wd_chineseTranslation :: jsstring
  wd_examples :: "(jsstring \<times> jsstring) list"
  wd_synonyms :: "jsstring list"
  wd_antonyms :: "jsstring list"
  wd_grammarNotes :: jsstring

text \<open>
  An \<open>AudioBufferSourceNode\<close>, and what the platform refuses: \<open>stop()\<close> on a node that was
  never started is an \<open>InvalidStateError\<close>.
\<close>

record SourceNode =
  buffer :: AudioBuffer
  connected :: bool
  started :: bool
  stopped :: bool

record AudioContext =
  contextSampleRate :: nat

text \<open>
  The state of \<open>WordDisplay\<close>: the two \<open>useState\<close> cells, the two refs (a source node is
  named by its position among the nodes created), and what the component does to the
  world: the audio requests sent, the alerts shown, the lines of \<open>console.error\<close>.
\<close>

record DisplayState =
  isPlaying :: bool
  isTtsLoading :: bool
  audioContextRef :: "AudioContext option"
  sourceNodeRef :: "nat option"
  sourceNodes :: "SourceNode list"
  ttsRequests :: "jsstring list"
  alertsShown :: "string list"
  consoleLines :: "string list"

definition initialDisplay :: DisplayState where
  "initialDisplay =
     \<lparr>isPlaying = False, isTtsLoading = False, audioContextRef = None, sourceNodeRef = None,
      sourceNodes = [], ttsRequests = [], alertsShown = [], consoleLines = []\<rparr>"

text \<open>
  What the platform does during one invocation: the answer to the audio request; whether
  an \<open>AudioContext\<close> can be constructed, whether the context is found suspended,
  whether \<open>resume()\<close> succeeds; and which call of the \<open>try\<close> block, if any, the platform
  makes throw.
\<close>

datatype fault = NoFault | CreateSourceThrows | ConnectThrows | StartThrows

record AudioEnv =
  tts :: "jsstring \<Rightarrow> tts_reply"
  ctxAvailable :: bool
  ctxSuspended :: bool
  resumeOk :: bool
  playbackFault :: fault

definition fullText :: "WordDefinition \<Rightarrow> jsstring" where
  "fullText data =
     js ''Word: '' @ wd_word data @ js ''. Meaning: '' @ wd_definition data
     @ js ''. Chinese translation is '' @ wd_chineseTranslation data
     @ js ''. Here is the detailed explanation: '' @ wd_grammarNotes data"

text \<open>The \<open>catch\<close> block of \<open>handleReadAloud\<close>, lines 92 to 95.\<close>

definition playback_error :: "DisplayState \<Rightarrow> unit settled \<times> DisplayState" where
  "playback_error s =
     (Fulfilled (), s\<lparr>consoleLines := consoleLines s @ [''Audio Playback Error:''],
                      isPlaying := False\<rparr>)"

text \<open>The \<open>try\<close> block, lines 80 to 91.\<close>

definition play :: "fault \<Rightarrow> jsstring \<Rightarrow> DisplayState \<Rightarrow> unit settled \<times> DisplayState" where
  "play flt base64Audio s =
     (case decode_path base64Audio of
        Inl e \<Rightarrow> playback_error s
      | Inr audioBuffer \<Rightarrow>
          if flt = CreateSourceThrows then playback_error s
          else
            (let n = length (sourceNodes s);
                 source = \<lparr>buffer = audioBuffer, connected = False, started = False,
                           stopped = False\<rparr>
             in if flt = ConnectThrows
                then playback_error (s\<lparr>sourceNodes := sourceNodes s @ [source]\<rparr>)
                else if flt = StartThrows
                then playback_error
                       (s\<lparr>sourceNodes := sourceNodes s @ [source\<lparr>connected := True\<rparr>],
                          sourceNodeRef := Some n\<rparr>)
                else (Fulfilled (),
                      s\<lparr>sourceNodes := sourceNodes s @ [source\<lparr>connected := True, started := True\<rparr>],
                        sourceNodeRef := Some n, isPlaying := True\<rparr>)))"

text \<open>
  Lines 71 to 78: the context is created when the ref is empty, and resumed when it is
  suspended. An exception here is outside the \<open>try\<close> block and leaves the handler.
\<close>

definition ensure_context :: "AudioEnv \<Rightarrow> DisplayState \<Rightarrow> exn option \<times> DisplayState" where
  "ensure_context env s =
     (if audioContextRef s = None \<and> \<not> ctxAvailable env then (Some TypeError, s)
      else
        (let s1 = (if audioContextRef s = None
                   then s\<lparr>audioContextRef := Some \<lparr>contextSampleRate = 24000\<rparr>\<rparr>
                   else s)
         in if ctxSuspended env \<and> \<not> resumeOk env then (Some InvalidStateError, s1)
            else (None, s1)))"

text \<open>
  \<open>handleReadAloud\<close>, lines 49 to 96, run to completion: the state it leaves and how its
  promise settles.
\<close>

definition handleReadAloud ::
  "AudioEnv \<Rightarrow> WordDefinition \<Rightarrow> DisplayState \<Rightarrow> unit settled \<times> DisplayState" where
  "handleReadAloud env data s =
     (if isPlaying s then
        (case sourceNodeRef s of
           None \<Rightarrow> (Fulfilled (), s\<lparr>isPlaying := False\<rparr>)
         | Some n \<Rightarrow>
             if n < length (sourceNodes s) \<and> started (sourceNodes s ! n)
             then (Fulfilled (),
                   s\<lparr>sourceNodes := (sourceNodes s)[n := (sourceNodes s ! n)\<lparr>stopped := True\<rparr>],
                     sourceNodeRef := None, isPlaying := False\<rparr>)
             else (RejectedWith InvalidStateError, s))
      else
        (let s1 = s\<lparr>isTtsLoading := True\<rparr>;
             (base64Audio, lines) = generateAudio (tts env) (fullText data);
             s2 = s1\<lparr>ttsRequests := ttsRequests s1 @ [tts_prompt (fullText data)],
                     consoleLines := consoleLines s1 @ lines\<rparr>
         in case base64Audio of
              RejectedWith e \<Rightarrow> (RejectedWith e, s2)
            | Fulfilled r \<Rightarrow>
                (let s3 = s2\<lparr>isTtsLoading := False\<rparr>
                 in case r of
                      None \<Rightarrow>
                        (Fulfilled (),
                         s3\<lparr>alertsShown := alertsShown s3 @ [''Failed to generate voice. Please try again.'']\<rparr>)
                    | Some b \<Rightarrow>
                        if b = [] then
                          (Fulfilled (),
                           s3\<lparr>alertsShown := alertsShown s3 @ [''Failed to generate voice. Please try again.'']\<rparr>)
                        else
                          (case ensure_context env s3 of
                             (Some e, s4) \<Rightarrow> (RejectedWith e, s4)
                           | (None, s4) \<Rightarrow> play (playbackFault env) b s4))))"

text \<open>\<open>source.onended\<close>, line 87.\<close>

definition onended :: "DisplayState \<Rightarrow> DisplayState" where
  "onended s = s\<lparr>isPlaying := False\<rparr>"

text \<open>
  The cleanup of the effect on \<open>data\<close>, lines 15 to 21, run when another word is
  displayed: \<open>stop()\<close> on the source of the ref, which throws when that source was
  never started.
\<close>

definition cleanup :: "DisplayState \<Rightarrow> DisplayState" where
  "cleanup s =
     (case sourceNodeRef s of
        None \<Rightarrow> s
      | Some n \<Rightarrow>
          if n < length (sourceNodes s) \<and> started (sourceNodes s ! n)
          then s\<lparr>sourceNodes := (sourceNodes s)[n := (sourceNodes s ! n)\<lparr>stopped := True\<rparr>]\<rparr>
          else s)"

text \<open>The three states of the playback machine, read off the two flags.\<close>

definition Idle :: "DisplayState \<Rightarrow> bool" where
  "Idle s = (\<not> isTtsLoading s \<and> \<not> isPlaying s)"

definition Loading :: "DisplayState \<Rightarrow> bool" where
  "Loading s = isTtsLoading s"

definition Playing :: "DisplayState \<Rightarrow> bool" where
  "Playing s = (isPlaying s \<and> \<not> isTtsLoading s)"

text \<open>
  What holds of the refs in every state the component reaches: while \<open>isPlaying\<close> is set,
  \<open>sourceNodeRef\<close> holds a node that was started.
\<close>

definition playing_ref_started :: "DisplayState \<Rightarrow> bool" where
  "playing_ref_started s =
     (if isPlaying s
      then (case sourceNodeRef s of
              None \<Rightarrow> False
            | Some n \<Rightarrow> n < length (sourceNodes s) \<and> started (sourceNodes s ! n))
      else True)"

text \<open>A displayed word and a platform, for the concrete instances of the theorems.\<close>

definition demo_word :: WordDefinition where
  "demo_word =
     \<lparr>wd_word = js ''run'', wd_phonetic = js ''/r/'', wd_partOfSpeech = js ''verb'',
      wd_definition = js ''move at speed'', wd_chineseTranslation = js ''pao'',
      wd_examples = [], wd_synonyms = [], wd_antonyms = [], wd_grammarNotes = js ''notes''\<rparr>"

definition demo_env :: "tts_reply \<Rightarrow> AudioEnv" where
  "demo_env r =
     \<lparr>tts = (\<lambda>p. r), ctxAvailable = True, ctxSuspended = True, resumeOk = True,
      playbackFault = NoFault\<rparr>"

section \<open>Lemmas: the session history\<close>

lemma strict_eq_Str: "strict_eq v (Str w) = (v = Str w)"
  by (cases v) auto

lemma history_addToHistory:
  "history (snd (addToHistory hist w now s)) =
     take 50 (\<lparr>word = w, timestamp = now\<rparr> # filter (\<lambda>h. \<not> strict_eq (word h) w) hist)"
  by (simp add: addToHistory_def Let_def)

lemma stored_addToHistory:
  "localStorage_history (snd (addToHistory hist w now s)) =
     (if setItemThrows s then localStorage_history s
      else Some (history (snd (addToHistory hist w now s))))"
  by (simp add: addToHistory_def Let_def)

lemma fst_addToHistory:
  "fst (addToHistory hist w now s) = (if setItemThrows s then Some QuotaExceededError else None)"
  by (simp add: addToHistory_def Let_def)

lemma record_run_fresh:
  "record_run (map (\<lambda>(w, t). (0, w, t)) ops) seen s =
     fold (\<lambda>(w, t) s. snd (addToHistory (history s) (Str w) t s)) ops s"
  by (induction ops arbitrary: seen s) auto

lemma record_all_Nil: "record_all [] s = s"
  by (simp add: record_all_def)

lemma record_all_snoc:
  "record_all (ops @ [(w, t)]) s =
     snd (addToHistory (history (record_all ops s)) (Str w) t (record_all ops s))"
  by (simp only: record_all_def record_run_fresh) simp

lemma remdups_snoc: "remdups (xs @ [x]) = filter (\<lambda>y. y \<noteq> x) (remdups xs) @ [x]"
  by (induction xs) auto

lemma filter_neq_notin: "x \<notin> set ys \<Longrightarrow> filter (\<lambda>y. y \<noteq> x) ys = ys"
  by (induction ys) auto

lemma length_filter_neq_distinct:
  "distinct ys \<Longrightarrow> length ys \<le> Suc (length (filter (\<lambda>y. y \<noteq> x) ys))"
  by (induction ys) (auto simp: filter_neq_notin)

lemma take_filter_take:
  assumes "distinct xs"
  shows "take n (filter (\<lambda>y. y \<noteq> x) (take (Suc n) xs)) = take n (filter (\<lambda>y. y \<noteq> x) xs)"
proof (cases "Suc n \<le> length xs")
  case False
  then show ?thesis by simp
next
  case True
  have d: "distinct (take (Suc n) xs)" using assms by simp
  have "length (take (Suc n) xs) \<le> Suc (length (filter (\<lambda>y. y \<noteq> x) (take (Suc n) xs)))"
    by (rule length_filter_neq_distinct [OF d])
  with True have len: "n \<le> length (filter (\<lambda>y. y \<noteq> x) (take (Suc n) xs))" by simp
  have "filter (\<lambda>y. y \<noteq> x) xs =
        filter (\<lambda>y. y \<noteq> x) (take (Suc n) xs) @ filter (\<lambda>y. y \<noteq> x) (drop (Suc n) xs)"
    by (metis append_take_drop_id filter_append)
  then show ?thesis using len by simp
qed

lemma words_record_all:
  assumes "history s = []"
  shows "map word (history (record_all ops s)) = take 50 (rev (remdups (map (\<lambda>p. Str (fst p)) ops)))"
proof (induction ops rule: rev_induct)
  case Nil
  then show ?case using assms by (simp add: record_all_Nil)
next
  case (snoc x ops)
  obtain w t where x: "x = (w, t)" by (cases x)
  let ?W = "rev (remdups (map (\<lambda>p. Str (fst p)) ops))"
  have "map word (history (record_all (ops @ [x]) s)) =
        take 50 (Str w # filter (\<lambda>y. y \<noteq> Str w) (map word (history (record_all ops s))))"
    by (simp add: x record_all_snoc history_addToHistory strict_eq_Str take_map filter_map comp_def)
  also have "\<dots> = take 50 (Str w # filter (\<lambda>y. y \<noteq> Str w) (take 50 ?W))"
    by (simp only: snoc.IH)
  also have "\<dots> = Str w # take 49 (filter (\<lambda>y. y \<noteq> Str w) (take (Suc 49) ?W))"
    by simp
  also have "\<dots> = Str w # take 49 (filter (\<lambda>y. y \<noteq> Str w) ?W)"
    by (simp only: take_filter_take [of ?W 49 "Str w"] distinct_rev distinct_remdups)
  also have "\<dots> = take 50 (Str w # filter (\<lambda>y. y \<noteq> Str w) ?W)"
    by simp
  also have "\<dots> = take 50 (rev (remdups (map (\<lambda>p. Str (fst p)) (ops @ [x]))))"
    by (simp add: x remdups_snoc rev_filter)
  finally show ?case .
qed

lemma stamps_record_all:
  assumes "history s = []"
  shows "\<forall>h \<in> set (history (record_all ops s)).
           \<exists>w. word h = Str w \<and> map_of (rev ops) w = Some (timestamp h)"
proof (induction ops rule: rev_induct)
  case Nil
  then show ?case using assms by (simp add: record_all_Nil)
next
  case (snoc x ops)
  obtain w t where x: "x = (w, t)" by (cases x)
  show ?case
  proof
    fix h assume "h \<in> set (history (record_all (ops @ [x]) s))"
    then have "h \<in> set (\<lparr>word = Str w, timestamp = t\<rparr>
                 # filter (\<lambda>h. word h \<noteq> Str w) (history (record_all ops s)))"
      by (auto simp: x record_all_snoc history_addToHistory strict_eq_Str dest: in_set_takeD)
    then consider "h = \<lparr>word = Str w, timestamp = t\<rparr>"
      | "h \<in> set (history (record_all ops s))" "word h \<noteq> Str w" by auto
    then show "\<exists>w. word h = Str w \<and> map_of (rev (ops @ [x])) w = Some (timestamp h)"
    proof cases
      case 1
      then show ?thesis by (simp add: x)
    next
      case 2
      with snoc.IH obtain w' where "word h = Str w'" "map_of (rev ops) w' = Some (timestamp h)"
        by blast
      with 2 show ?thesis by (auto simp: x)
    qed
  qed
qed

lemma distinct_record_all:
  assumes "history s = []" and "distinct (map fst ops)"
  shows "history (record_all ops s) =
           take 50 (rev (map (\<lambda>(w, t). \<lparr>word = Str w, timestamp = t\<rparr>) ops))"
  using assms(2)
proof (induction ops rule: rev_induct)
  case Nil
  then show ?case using assms(1) by (simp add: record_all_Nil)
next
  case (snoc x ops)
  obtain w t where x: "x = (w, t)" by (cases x)
  let ?I = "rev (map (\<lambda>(w, t). \<lparr>word = Str w, timestamp = t\<rparr>) ops)"
  from snoc.prems have d: "distinct (map fst ops)" and nw: "w \<notin> fst ` set ops"
    by (auto simp: x)
  have keep: "filter (\<lambda>h. word h \<noteq> Str w) (take 50 ?I) = take 50 ?I"
  proof (rule filter_True, rule ballI)
    fix h assume "h \<in> set (take 50 ?I)"
    then have "h \<in> set ?I" by (rule in_set_takeD)
    then show "word h \<noteq> Str w" using nw by (auto simp: image_iff)
  qed
  have "history (record_all (ops @ [x]) s) =
        take 50 (\<lparr>word = Str w, timestamp = t\<rparr> # filter (\<lambda>h. word h \<noteq> Str w) (take 50 ?I))"
    by (simp add: x record_all_snoc history_addToHistory strict_eq_Str snoc.IH [OF d])
  also have "\<dots> = take 50 (\<lparr>word = Str w, timestamp = t\<rparr> # ?I)"
    by (simp only: keep) (simp add: min_def)
  finally show ?case by (simp add: x)
qed

lemma trim_Nil_iff: "trim q = [] \<longleftrightarrow> list_all isTrimSpace q"
proof
  assume "trim q = []"
  then have a: "\<forall>x \<in> set (dropWhile isTrimSpace q). isTrimSpace x"
    by (simp add: trim_def dropWhile_eq_Nil_conv)
  have "dropWhile isTrimSpace q = []"
  proof (rule ccontr)
    assume n: "dropWhile isTrimSpace q \<noteq> []"
    then have "\<not> isTrimSpace (hd (dropWhile isTrimSpace q))" by (rule hd_dropWhile)
    moreover have "hd (dropWhile isTrimSpace q) \<in> set (dropWhile isTrimSpace q)"
      using n by simp
    ultimately show False using a by blast
  qed
  then show "list_all isTrimSpace q"
    by (simp add: dropWhile_eq_Nil_conv list_all_iff)
next
  assume "list_all isTrimSpace q"
  then have "dropWhile isTrimSpace q = []"
    by (simp add: dropWhile_eq_Nil_conv list_all_iff)
  then show "trim q = []" by (auto simp: trim_def dest: set_dropWhileD)
qed

lemma sorted_stamps_record_all:
  assumes "history s = []" and "sorted_wrt (<) (map snd ops)"
  shows "sorted_wrt (>) (map timestamp (history (record_all ops s)))"
  using assms(2)
proof (induction ops rule: rev_induct)
  case Nil
  then show ?case using assms(1) by (simp add: record_all_Nil)
next
  case (snoc x ops)
  obtain w t where x: "x = (w, t)" by (cases x)
  let ?H = "history (record_all ops s)"
  from snoc.prems have so: "sorted_wrt (<) (map snd ops)" and lt: "\<forall>p \<in> set ops. snd p < t"
    by (auto simp: x sorted_wrt_append)
  have IH: "sorted_wrt (>) (map timestamp ?H)" by (rule snoc.IH [OF so])
  have below: "\<forall>h \<in> set ?H. timestamp h < t"
  proof
    fix h assume "h \<in> set ?H"
    with stamps_record_all [OF assms(1), of ops]
    obtain w' where "map_of (rev ops) w' = Some (timestamp h)" by blast
    then have "(w', timestamp h) \<in> set ops" by (auto dest: map_of_SomeD)
    with lt show "timestamp h < t" by force
  qed
  have f: "sorted_wrt (>) (map timestamp (filter (\<lambda>h. word h \<noteq> Str w) ?H))"
    using IH by (simp add: sorted_wrt_map sorted_wrt_filter)
  have "sorted_wrt (>) (map timestamp (\<lparr>word = Str w, timestamp = t\<rparr> # filter (\<lambda>h. word h \<noteq> Str w) ?H))"
    using f below by auto
  then have "sorted_wrt (>) (map timestamp (take 50 (\<lparr>word = Str w, timestamp = t\<rparr> # filter (\<lambda>h. word h \<noteq> Str w) ?H)))"
    unfolding sorted_wrt_map by (rule sorted_wrt_take)
  then show ?case
    by (simp add: x record_all_snoc history_addToHistory strict_eq_Str)
qed



lemma record_run_cap_unique:
  assumes "\<forall>l \<in> set (history s # seen). length l \<le> 50 \<and> distinct (map word l)"
  shows "length (history (record_run ops seen s)) \<le> 50
         \<and> distinct (map word (history (record_run ops seen s)))"
  using assms
proof (induction ops arbitrary: seen s)
  case Nil
  then show ?case by simp
next
  case (Cons op ops)
  obtain age w t where op: "op = (age, w, t)" by (cases op)
  let ?base = "(history s # seen) ! min age (length seen)"
  let ?s' = "snd (addToHistory ?base (Str w) t s)"
  have "?base \<in> set (history s # seen)" by (rule nth_mem) simp
  with Cons.prems have d: "distinct (map word ?base)" by blast
  have "distinct (map word (\<lparr>word = Str w, timestamp = t\<rparr> # filter (\<lambda>h. word h \<noteq> Str w) ?base))"
    using d by (auto simp: distinct_map_filter)
  then have "distinct (map word (history ?s'))"
    by (simp only: history_addToHistory strict_eq_Str take_map [symmetric] distinct_take)
  moreover have "length (history ?s') \<le> 50"
    by (simp only: history_addToHistory) simp
  ultimately have "\<forall>l \<in> set (history ?s' # history s # seen). length l \<le> 50 \<and> distinct (map word l)"
    using Cons.prems by simp
  from Cons.IH [OF this] show ?case by (simp add: op)
qed

lemma record_run_recency:
  assumes "\<forall>l \<in> set (history s # seen).
             sorted_wrt (>) (map timestamp l) \<and> (\<forall>h \<in> set l. timestamp h \<le> t0)"
    and "sorted_wrt (<) (t0 # map (\<lambda>op. snd (snd op)) ops)"
  shows "sorted_wrt (>) (map timestamp (history (record_run ops seen s)))"
  using assms
proof (induction ops arbitrary: seen s t0)
  case Nil
  then show ?case by simp
next
  case (Cons op ops)
  obtain age w t where op: "op = (age, w, t)" by (cases op)
  let ?base = "(history s # seen) ! min age (length seen)"
  let ?s' = "snd (addToHistory ?base (Str w) t s)"
  let ?new = "\<lparr>word = Str w, timestamp = t\<rparr> # filter (\<lambda>h. word h \<noteq> Str w) ?base"
  from Cons.prems(2) have lt: "t0 < t" and rest: "sorted_wrt (<) (t # map (\<lambda>op. snd (snd op)) ops)"
    by (auto simp: op)
  have "?base \<in> set (history s # seen)" by (rule nth_mem) simp
  with Cons.prems(1) have b: "sorted_wrt (>) (map timestamp ?base)"
    and bt: "\<forall>h \<in> set ?base. timestamp h \<le> t0" by blast+
  have f: "sorted_wrt (>) (map timestamp (filter (\<lambda>h. word h \<noteq> Str w) ?base))"
    using b by (simp add: sorted_wrt_map sorted_wrt_filter)
  have n: "sorted_wrt (>) (map timestamp ?new)" using f bt lt by auto
  have h': "history ?s' = take 50 ?new"
    by (simp only: history_addToHistory strict_eq_Str)
  have s1: "sorted_wrt (>) (map timestamp (history ?s'))"
    using n unfolding h' sorted_wrt_map by (rule sorted_wrt_take)
  have s2: "\<forall>h \<in> set (history ?s'). timestamp h \<le> t"
  proof
    fix h assume "h \<in> set (history ?s')"
    then have "h \<in> set ?new" unfolding h' by (rule in_set_takeD)
    then consider "h = \<lparr>word = Str w, timestamp = t\<rparr>" | "h \<in> set ?base" by auto
    then show "timestamp h \<le> t"
    proof cases
      case 1
      then show ?thesis by simp
    next
      case 2
      with bt have "timestamp h \<le> t0" by blast
      with lt show ?thesis by simp
    qed
  qed
  have "\<forall>l \<in> set (history ?s' # history s # seen).
          sorted_wrt (>) (map timestamp l) \<and> (\<forall>h \<in> set l. timestamp h \<le> t)"
    using s1 s2 Cons.prems(1) lt by fastforce
  from Cons.IH [OF this rest] show ?case by (simp add: op)
qed

lemma performSearch_resume_records:
  assumes "dot_word d = Some w" and "\<not> setItemThrows s"
  shows "history (performSearch_resume hist (Inr d) now s) =
           take 50 (\<lparr>word = w, timestamp = now\<rparr> # filter (\<lambda>h. \<not> strict_eq (word h) w) hist)"
    and "localStorage_history (performSearch_resume hist (Inr d) now s) =
           Some (history (performSearch_resume hist (Inr d) now s))"
  using assms by (simp_all add: performSearch_resume_def addToHistory_def Let_def)


lemma performSearch_resume_setItem_throws:
  assumes "dot_word d = Some w" and "setItemThrows s"
  shows "history (performSearch_resume hist (Inr d) now s) =
           take 50 (\<lparr>word = w, timestamp = now\<rparr> # filter (\<lambda>h. \<not> strict_eq (word h) w) hist)"
    and "localStorage_history (performSearch_resume hist (Inr d) now s) = localStorage_history s"
    and "query (performSearch_resume hist (Inr d) now s) = query s"
    and "loading (performSearch_resume hist (Inr d) now s) = False"
    and "alerts (performSearch_resume hist (Inr d) now s) =
           alerts s @ [''Search failed. The AI might be busy or the query was unclear.'']"
  using assms
  by (simp_all add: performSearch_resume_def addToHistory_def search_failed_def Let_def)
section \<open>Lemmas: the fence markers and the lookup\<close>







section \<open>Lemmas: base64 and the decode path\<close>

lemma le_pair_roundtrip:
  "(ucast (ucast x :: 8 word) OR push_bit 8 (ucast (ucast (drop_bit 8 x) :: 8 word))) = (x :: 16 word)"
  by (rule bit_word_eqI) (auto simp: bit_simps)

lemma le_pairs_pcm_bytes: "le_pairs (pcm_bytes ss) = ss"
  by (induction ss) (simp_all add: pcm_bytes_def le_pair_roundtrip)

lemma length_pcm_bytes: "length (pcm_bytes ss) = 2 * length ss"
  by (induction ss) (simp_all add: pcm_bytes_def)

lemma Int16Array_pcm_bytes: "Int16Array (pcm_bytes ss) = Inr ss"
  by (simp add: Int16Array_def length_pcm_bytes le_pairs_pcm_bytes)

lemma decodeAudioData_pcm_bytes:
  assumes "ss \<noteq> []"
  shows "decodeAudioData (pcm_bytes ss) =
     Inr \<lparr>numberOfChannels = 1, bufferLength = length ss, sampleRate = 24000,
          channelData = [map (\<lambda>x. of_int (sint x) / 32768) ss]\<rparr>"
proof -
  have "map (\<lambda>i. (of_int (sint (ss ! i)) :: rat) / 32768) [0..<length ss]
        = map (\<lambda>x. of_int (sint x) / 32768) ss"
    by (rule nth_equalityI) simp_all
  then show ?thesis
    using assms by (simp add: decodeAudioData_def Int16Array_pcm_bytes createBuffer_def)
qed

lemma b64_table: "list_all (\<lambda>v. b64_value (b64_char v) = Some v \<and> \<not> isAsciiSpace (b64_char v)
      \<and> b64_char v \<noteq> ch CHR ''='') [0..<64]"
  by code_simp

lemma b64_value_char:
  assumes "v < 64"
  shows "b64_value (b64_char v) = Some v" and "\<not> isAsciiSpace (b64_char v)"
    and "b64_char v \<noteq> ch CHR ''=''"
  using b64_table assms by (simp_all add: list_all_iff)

lemma div_mod_mult_add: "x < n \<Longrightarrow> (a * n + x) div n = (a::nat)" "x < n \<Longrightarrow> (a * n + x) mod n = x"
  by simp_all

lemma sextets4_value:
  fixes a b c :: nat
  shows "a div 4 * 262144 + (a mod 4 * 16 + b div 16) * 4096 + (b mod 16 * 4 + c div 64) * 64 + c mod 64
        = a * 65536 + b * 256 + c"
proof -
  define q1 r1 q2 r2 q3 r3 where "q1 = a div 4" and "r1 = a mod 4" and "q2 = b div 16"
    and "r2 = b mod 16" and "q3 = c div 64" and "r3 = c mod 64"
  have a: "a = q1 * 4 + r1" and b: "b = q2 * 16 + r2" and c: "c = q3 * 64 + r3"
    by (simp_all add: q1_def r1_def q2_def r2_def q3_def r3_def)
  have "q1 * 262144 + (r1 * 16 + q2) * 4096 + (r2 * 4 + q3) * 64 + r3
        = (q1 * 4 + r1) * 65536 + (q2 * 16 + r2) * 256 + (q3 * 64 + r3)"
    by (simp add: algebra_simps)
  then show ?thesis
    unfolding q1_def r1_def q2_def r2_def q3_def r3_def by (simp only: div_mult_mod_eq)
qed

lemma bytes3_of_value:
  fixes a b c :: nat
  assumes "b < 256" "c < 256"
  shows "(a * 65536 + b * 256 + c) div 65536 = a"
    and "(a * 65536 + b * 256 + c) div 256 mod 256 = b"
    and "(a * 65536 + b * 256 + c) mod 256 = c"
proof -
  have x: "b * 256 + c < 65536" using assms by linarith
  show "(a * 65536 + b * 256 + c) div 65536 = a"
    using div_mod_mult_add(1) [OF x, of a] by (simp add: add.assoc)
  have e: "a * 65536 + b * 256 + c = (a * 256 + b) * 256 + c" by (simp add: algebra_simps)
  have d: "(a * 65536 + b * 256 + c) div 256 = a * 256 + b"
    unfolding e by (rule div_mod_mult_add(1) [OF assms(2)])
  show "(a * 65536 + b * 256 + c) div 256 mod 256 = b"
    unfolding d by (rule div_mod_mult_add(2) [OF assms(1)])
  show "(a * 65536 + b * 256 + c) mod 256 = c"
    unfolding e by (rule div_mod_mult_add(2) [OF assms(2)])
qed

lemma sextets3_value:
  fixes a b :: nat
  shows "a div 4 * 4096 + (a mod 4 * 16 + b div 16) * 64 + b mod 16 * 4 = (a * 256 + b) * 4"
proof -
  define q1 r1 q2 r2 where "q1 = a div 4" and "r1 = a mod 4" and "q2 = b div 16"
    and "r2 = b mod 16"
  have "q1 * 4096 + (r1 * 16 + q2) * 64 + r2 * 4 = ((q1 * 4 + r1) * 256 + (q2 * 16 + r2)) * 4"
    by (simp add: algebra_simps)
  then show ?thesis
    unfolding q1_def r1_def q2_def r2_def by (simp only: div_mult_mod_eq)
qed

lemma sextets2_value:
  fixes a :: nat
  shows "a div 4 * 64 + a mod 4 * 16 = a * 16"
proof -
  define q1 r1 where "q1 = a div 4" and "r1 = a mod 4"
  have "q1 * 64 + r1 * 16 = (q1 * 4 + r1) * 16"
    by (simp add: algebra_simps)
  then show ?thesis
    unfolding q1_def r1_def by (simp only: div_mult_mod_eq)
qed

lemma sextet_bounds:
  fixes a b c :: nat
  assumes "a < 256" "b < 256" "c < 256"
  shows "a div 4 < 64" "a mod 4 * 16 + b div 16 < 64" "b mod 16 * 4 + c div 64 < 64" "c mod 64 < 64"
    "b mod 16 * 4 < 64" "a mod 4 * 16 < 64"
proof -
  have 1: "a mod 4 < 4" "b mod 16 < 16" "c div 64 < 4" "b div 16 < 16" using assms by simp_all
  show "a div 4 < 64" using assms by linarith
  show "a mod 4 * 16 + b div 16 < 64" using 1 by linarith
  show "b mod 16 * 4 + c div 64 < 64" using 1 by linarith
  show "c mod 64 < 64" by simp
  show "b mod 16 * 4 < 64" using 1 by linarith
  show "a mod 4 * 16 < 64" using 1 by linarith
qed

lemma decode_group4:
  assumes "a < 256" "b < 256" "c < (256::nat)"
  shows "decode_sextets ([a div 4, a mod 4 * 16 + b div 16, b mod 16 * 4 + c div 64, c mod 64] @ vs)
         = [a, b, c] @ decode_sextets vs"
  by (simp only: append_Cons append_Nil decode_sextets.simps Let_def sextets4_value bytes3_of_value [OF assms(2,3)])

lemma decode_group3:
  assumes "a < 256" "b < (256::nat)"
  shows "decode_sextets [a div 4, a mod 4 * 16 + b div 16, b mod 16 * 4] = [a, b]"
proof -
  have "(a * 256 + b) * 4 div 4 = a * 256 + b" by simp
  then show ?thesis
    by (simp only: decode_sextets.simps Let_def sextets3_value div_mod_mult_add [OF assms(2)])
qed

lemma decode_group2: "decode_sextets [a div 4, a mod 4 * 16] = [a]"
proof -
  have "a * 16 div 16 = a" by simp
  then show ?thesis by (simp only: decode_sextets.simps sextets2_value)
qed

lemma encode_bytes_shape:
  assumes "list_all (\<lambda>n. n < 256) ns"
  shows "\<exists>vs k. encode_bytes ns = map b64_char vs @ replicate k (ch CHR ''='')
           \<and> k \<le> 2 \<and> list_all (\<lambda>v. v < 64) vs \<and> decode_sextets vs = ns
           \<and> (length vs + k) mod 4 = 0 \<and> length vs mod 4 \<noteq> 1"
  using assms
proof (induction ns rule: encode_bytes.induct)
  case (1 a b c r)
  then have a: "a < 256" and b: "b < 256" and c: "c < 256" and r: "list_all (\<lambda>n. n < 256) r"
    by simp_all
  from "1.IH" [OF r] obtain vs k where
    e: "encode_bytes r = map b64_char vs @ replicate k (ch CHR ''='')" and k: "k \<le> 2"
    and v: "list_all (\<lambda>v. v < 64) vs" and d: "decode_sextets vs = r"
    and l: "(length vs + k) mod 4 = 0" and m: "length vs mod 4 \<noteq> 1" by auto
  let ?g = "[a div 4, a mod 4 * 16 + b div 16, b mod 16 * 4 + c div 64, c mod 64]"
  have g: "list_all (\<lambda>v. v < 64) ?g" using sextet_bounds [OF a b c] by simp
  have 1: "encode_bytes (a # b # c # r) = map b64_char (?g @ vs) @ replicate k (ch CHR ''='')"
    by (simp add: e)
  have 2: "list_all (\<lambda>v. v < 64) (?g @ vs)" using g v by simp
  have 3: "decode_sextets (?g @ vs) = a # b # c # r"
    using decode_group4 [OF a b c, of vs] d by simp
  have len: "length (?g @ vs) = length vs + 4" by simp
  have 4: "(length (?g @ vs) + k) mod 4 = 0" unfolding len using l by presburger
  have 5: "length (?g @ vs) mod 4 \<noteq> 1" unfolding len using m by simp
  show ?case
    by (rule exI [of _ "?g @ vs"], rule exI [of _ k]) (simp only: 1 2 3 4 5 k simp_thms)
next
  case (2 a b)
  then have a: "a < 256" and b: "b < 256" by simp_all
  let ?g = "[a div 4, a mod 4 * 16 + b div 16, b mod 16 * 4]"
  have 1: "encode_bytes [a, b] = map b64_char ?g @ replicate 1 (ch CHR ''='')" by simp
  have 2: "list_all (\<lambda>v. v < 64) ?g" using sextet_bounds [OF a b b] by simp
  have 3: "decode_sextets ?g = [a, b]" by (rule decode_group3 [OF a b])
  have 4: "(length ?g + 1) mod 4 = 0" "length ?g mod 4 \<noteq> 1" "(1::nat) \<le> 2" by simp_all
  show ?case
    by (rule exI [of _ ?g], rule exI [of _ 1]) (simp only: 1 2 3 4 simp_thms)
next
  case (3 a)
  then have a: "a < 256" by simp
  let ?g = "[a div 4, a mod 4 * 16]"
  have 1: "encode_bytes [a] = map b64_char ?g @ replicate 2 (ch CHR ''='')"
    by (simp add: numeral_2_eq_2)
  have 2: "list_all (\<lambda>v. v < 64) ?g" using sextet_bounds [OF a a a] by simp
  have 3: "decode_sextets ?g = [a]" by (rule decode_group2)
  have 4: "(length ?g + 2) mod 4 = 0" "length ?g mod 4 \<noteq> 1" "(2::nat) \<le> 2" by simp_all
  show ?case
    by (rule exI [of _ ?g], rule exI [of _ 2]) (simp only: 1 2 3 4 simp_thms)
next
  case 4
  show ?case
    by (rule exI [of _ "[]"], rule exI [of _ 0]) simp
qed

lemma those_b64_value:
  "list_all (\<lambda>v. v < 64) vs \<Longrightarrow> those (map b64_value (map b64_char vs)) = Some vs"
  by (induction vs) (simp_all add: b64_value_char del: map_map)

lemma no_space_char:
  "list_all (\<lambda>v. v < 64) vs \<Longrightarrow> filter (\<lambda>c. \<not> isAsciiSpace c) (map b64_char vs) = map b64_char vs"
  by (induction vs) (simp_all add: b64_value_char)

lemma eq_not_space: "\<not> isAsciiSpace (ch CHR ''='')"
  by code_simp

lemma eq_notin_chars:
  assumes "list_all (\<lambda>v. v < 64) vs"
  shows "ch CHR ''='' \<notin> set (map b64_char vs)"
proof
  assume "ch CHR ''='' \<in> set (map b64_char vs)"
  then obtain v where v: "v \<in> set vs" "b64_char v = ch CHR ''=''" by auto
  from v(1) assms have "v < 64" by (simp add: list_all_iff)
  then show False using v(2) b64_value_char(3) by blast
qed

lemma strip_padding_body:
  assumes "k \<le> 2" and "ch CHR ''='' \<notin> set body" and "(length body + k) mod 4 = 0"
  shows "strip_padding (body @ replicate k (ch CHR ''='')) = body"
proof -
  have e: "js ''=='' = [ch CHR ''='', ch CHR ''='']" "js ''='' = [ch CHR ''='']"
    by (simp_all add: js_def ch_def)
  consider "k = 0" | "k = 1" | "k = 2" using assms(1) by linarith
  then show ?thesis
  proof cases
    case 1
    have a: "drop (length body - 2) body \<noteq> [ch CHR ''='', ch CHR ''='']"
    proof
      assume "drop (length body - 2) body = [ch CHR ''='', ch CHR ''='']"
      then have "ch CHR ''='' \<in> set (drop (length body - 2) body)" by simp
      then show False using assms(2) by (auto dest: in_set_dropD)
    qed
    have b: "drop (length body - 1) body \<noteq> [ch CHR ''='']"
    proof
      assume "drop (length body - 1) body = [ch CHR ''='']"
      then have "ch CHR ''='' \<in> set (drop (length body - 1) body)" by simp
      then show False using assms(2) by (auto dest: in_set_dropD)
    qed
    show ?thesis using 1 a b by (simp add: strip_padding_def e)
  next
    case 2
    have ne: "body \<noteq> []" using assms(3) 2 by auto
    then have l: "last body \<noteq> ch CHR ''=''" using assms(2) last_in_set by metis
    have a: "drop (length body + 1 - 2) (body @ [ch CHR ''='']) \<noteq> [ch CHR ''='', ch CHR ''='']"
    proof
      assume h: "drop (length body + 1 - 2) (body @ [ch CHR ''='']) = [ch CHR ''='', ch CHR ''='']"
      have i: "length body + 1 - 2 = length body - 1" by simp
      have "drop (length body + 1 - 2) (body @ [ch CHR ''='']) = drop (length body - 1) body @ [ch CHR ''='']"
        by (simp only: i drop_append) simp
      with h have "drop (length body - 1) body = [ch CHR ''='']" by simp
      then have "ch CHR ''='' \<in> set (drop (length body - 1) body)" by simp
      then show False using assms(2) by (auto dest: in_set_dropD)
    qed
    show ?thesis using 2 a assms(3) by (simp add: strip_padding_def e)
  next
    case 3
    then show ?thesis using assms(3) by (simp add: strip_padding_def e numeral_2_eq_2)
  qed
qed

lemma atob_encode_bytes:
  assumes "list_all (\<lambda>n. n < 256) ns"
  shows "atob (encode_bytes ns) = Some (map of_nat ns)"
proof -
  from encode_bytes_shape [OF assms] obtain vs k where
    e: "encode_bytes ns = map b64_char vs @ replicate k (ch CHR ''='')" and k: "k \<le> 2"
    and v: "list_all (\<lambda>v. v < 64) vs" and d: "decode_sextets vs = ns"
    and l: "(length vs + k) mod 4 = 0" and m: "length vs mod 4 \<noteq> 1" by auto
  have f: "filter (\<lambda>c. \<not> isAsciiSpace c) (encode_bytes ns) = map b64_char vs @ replicate k (ch CHR ''='')"
    by (simp add: e no_space_char [OF v] eq_not_space)
  have s: "strip_padding (map b64_char vs @ replicate k (ch CHR ''='')) = map b64_char vs"
    by (rule strip_padding_body [OF k eq_notin_chars [OF v]]) (simp add: l)
  have t: "those (map b64_value (map b64_char vs)) = Some vs" by (rule those_b64_value [OF v])
  show ?thesis
    using m by (simp only: atob_def f s Let_def t) (simp add: d)
qed

lemma decodeBase64_btoa: "decodeBase64 (btoa bytes) = Inr bytes"
proof -
  have u8: "unat x < 256" for x :: "8 word"
    using unsigned_less [of x, where 'a = nat] by simp
  have b: "list_all (\<lambda>n. n < 256) (map unat bytes)"
    by (induction bytes) (simp_all add: u8)
  have up: "is_up (ucast :: 8 word \<Rightarrow> 16 word)" by (simp add: is_up)
  have c: "(ucast :: 16 word \<Rightarrow> 8 word) (of_nat (unat x)) = x" for x :: "8 word"
    by (simp add: ucast_up_ucast_id [OF up])
  have "map (\<lambda>x. (ucast :: 16 word \<Rightarrow> 8 word) (of_nat (unat x))) bytes = bytes"
    by (simp only: c) simp
  then have u: "map (ucast :: 16 word \<Rightarrow> 8 word) (map of_nat (map unat bytes)) = bytes"
    by (simp only: map_map comp_def)
  show ?thesis
    by (simp add: decodeBase64_def btoa_def atob_encode_bytes [OF b] u del: map_map)
qed

lemma decode_path_pcm:
  assumes "samples \<noteq> []"
  shows "decode_path (btoa (pcm_bytes samples)) =
     Inr \<lparr>numberOfChannels = 1, bufferLength = length samples, sampleRate = 24000,
          channelData = [map (\<lambda>x. of_int (sint x) / 32768) samples]\<rparr>"
  by (simp add: decode_path_def decodeBase64_btoa decodeAudioData_pcm_bytes [OF assms])

lemma sint_quantize:
  "sint (quantize x) = max (- 32768) (min 32767 (round (x * 32768)))"
proof -
  let ?k = "max (- 32768) (min 32767 (round (x * 32768))) :: int"
  have "- (2 ^ 15) \<le> ?k" "?k < 2 ^ 15" by simp_all
  then have "signed_take_bit 15 ?k = ?k" by (rule signed_take_bit_int_eq_self)
  then show ?thesis by (simp add: quantize_def signed_of_int)
qed

lemma quantize_error:
  fixes x :: rat
  assumes "- 1 \<le> x" and "x \<le> 1"
  shows "\<bar>of_int (sint (quantize x)) / 32768 - x\<bar> \<le> 1 / 32768"
proof -
  define y where "y = x * 32768"
  define k where "k = max (- 32768) (min 32767 (round y))"
  have yb: "- 32768 \<le> y" "y \<le> 32768" using assms by (simp_all add: y_def)
  have r: "\<bar>of_int (round y) - y\<bar> \<le> 1 / 2" by (rule of_int_round_abs_le)
  have lo: "- 32768 \<le> round y"
  proof -
    have "round (- 32768 :: rat) \<le> round y" using yb(1) by (rule round_mono)
    then show ?thesis by simp
  qed
  have hi: "round y \<le> 32768"
  proof -
    have "round y \<le> round (32768 :: rat)" using yb(2) by (rule round_mono)
    then show ?thesis by simp
  qed
  have d: "\<bar>of_int k - y\<bar> \<le> 1"
  proof (cases "round y \<le> 32767")
    case True
    then have "k = round y" using lo by (simp add: k_def)
    then show ?thesis using r by simp
  next
    case False
    then have e: "round y = 32768" using hi by simp
    then have "k = 32767" by (simp add: k_def)
    moreover have "\<bar>32768 - y\<bar> \<le> 1 / 2" using r by (simp add: e)
    then have "32767 + 1 / 2 \<le> y" by linarith
    ultimately show ?thesis using yb(2) by simp
  qed
  have eq: "of_int (sint (quantize x)) / 32768 - x = (of_int k - y) / 32768"
    by (simp add: sint_quantize k_def y_def diff_divide_distrib)
  have "\<bar>(of_int k - y) / 32768\<bar> = \<bar>of_int k - y\<bar> / 32768"
    by (simp only: abs_divide abs_numeral)
  also have "\<dots> \<le> 1 / 32768" using d by (rule divide_right_mono) simp
  finally show ?thesis by (simp only: eq)
qed

section \<open>Lemmas: the playback state machine\<close>

lemma generateAudio_cases:
  "generateAudio audio text =
     (case audio (tts_prompt text) of
        TtsRejected \<Rightarrow> (Fulfilled None, [''TTS Generation failed''])
      | TtsReply d \<Rightarrow> (Fulfilled d, []))"
  by (simp add: generateAudio_def generateAudio_try_def split: tts_reply.splits)

lemma play_flags:
  "isTtsLoading (snd (play flt b s)) = isTtsLoading s"
  "alertsShown (snd (play flt b s)) = alertsShown s"
  "ttsRequests (snd (play flt b s)) = ttsRequests s"
  "fst (play flt b s) = Fulfilled ()"
  by (simp_all add: play_def playback_error_def Let_def split: sum.splits)

lemma play_playing:
  "isPlaying (snd (play flt b s)) \<longleftrightarrow> (\<exists>buf. decode_path b = Inr buf) \<and> flt = NoFault"
  by (cases flt) (auto simp: play_def playback_error_def Let_def split: sum.splits)

lemma play_failure_logged:
  "(\<exists>e. decode_path b = Inl e) \<or> flt \<noteq> NoFault \<Longrightarrow>
     consoleLines (snd (play flt b s)) = consoleLines s @ [''Audio Playback Error:'']"
  by (cases flt) (auto simp: play_def playback_error_def Let_def split: sum.splits)

lemma ensure_context_frame:
  assumes "ensure_context env s = (r, s')"
  shows "isPlaying s' = isPlaying s \<and> isTtsLoading s' = isTtsLoading s
         \<and> alertsShown s' = alertsShown s \<and> consoleLines s' = consoleLines s
         \<and> ttsRequests s' = ttsRequests s \<and> sourceNodes s' = sourceNodes s
         \<and> sourceNodeRef s' = sourceNodeRef s
         \<and> (r = None \<longleftrightarrow>
              (audioContextRef s \<noteq> None \<or> ctxAvailable env) \<and> (ctxSuspended env \<longrightarrow> resumeOk env))"
  using assms by (auto simp: ensure_context_def Let_def split: if_splits)

lemma not_loading_after:
  assumes "\<not> isPlaying s"
  shows "\<not> isTtsLoading (snd (handleReadAloud env data s))"
  using assms
  by (auto simp: handleReadAloud_def generateAudio_cases Let_def play_flags
           split: tts_reply.splits option.splits prod.splits dest!: ensure_context_frame)

lemma no_payload_alert:
  assumes "\<not> isPlaying s"
    and "tts env (tts_prompt (fullText data)) = TtsRejected
         \<or> tts env (tts_prompt (fullText data)) = TtsReply None
         \<or> tts env (tts_prompt (fullText data)) = TtsReply (Some [])"
  shows "fst (handleReadAloud env data s) = Fulfilled ()"
    and "\<not> isPlaying (snd (handleReadAloud env data s))"
    and "alertsShown (snd (handleReadAloud env data s)) =
           alertsShown s @ [''Failed to generate voice. Please try again.'']"
  using assms
  by (auto simp: handleReadAloud_def generateAudio_cases Let_def)

lemma playback_failure_logged:
  assumes "\<not> isPlaying s"
    and "tts env (tts_prompt (fullText data)) = TtsReply (Some b)" and "b \<noteq> []"
    and "audioContextRef s \<noteq> None \<or> ctxAvailable env" and "ctxSuspended env \<longrightarrow> resumeOk env"
    and "(\<exists>e. decode_path b = Inl e) \<or> playbackFault env \<noteq> NoFault"
  shows "fst (handleReadAloud env data s) = Fulfilled ()"
    and "\<not> isPlaying (snd (handleReadAloud env data s))"
    and "consoleLines (snd (handleReadAloud env data s)) =
           consoleLines s @ [''Audio Playback Error:'']"
proof -
  obtain r s4 where e: "ensure_context env
       (s\<lparr>isTtsLoading := True,
          ttsRequests := ttsRequests s @ [tts_prompt (fullText data)],
          consoleLines := consoleLines s @ [],
          isTtsLoading := False\<rparr>) = (r, s4)"
    by (cases "ensure_context env
       (s\<lparr>isTtsLoading := True,
          ttsRequests := ttsRequests s @ [tts_prompt (fullText data)],
          consoleLines := consoleLines s @ [],
          isTtsLoading := False\<rparr>)")
  from ensure_context_frame [OF e] assms(4,5)
  have r: "r = None" and c: "consoleLines s4 = consoleLines s" by simp_all
  have h: "handleReadAloud env data s = play (playbackFault env) b s4"
    using assms(1,2,3) e r by (simp add: handleReadAloud_def generateAudio_cases Let_def)
  show "fst (handleReadAloud env data s) = Fulfilled ()"
    by (simp add: h play_flags)
  show "\<not> isPlaying (snd (handleReadAloud env data s))"
    using assms(6) by (auto simp: h play_playing)
  show "consoleLines (snd (handleReadAloud env data s)) =
           consoleLines s @ [''Audio Playback Error:'']"
    using play_failure_logged [OF assms(6)] by (simp add: h c)
qed

lemma playing_on_success:
  assumes "\<not> isPlaying s"
    and "tts env (tts_prompt (fullText data)) = TtsReply (Some b)" and "b \<noteq> []"
    and "audioContextRef s \<noteq> None \<or> ctxAvailable env" and "ctxSuspended env \<longrightarrow> resumeOk env"
    and "decode_path b = Inr buf" and "playbackFault env = NoFault"
  shows "fst (handleReadAloud env data s) = Fulfilled ()"
    and "isPlaying (snd (handleReadAloud env data s))"
    and "ttsRequests (snd (handleReadAloud env data s)) = ttsRequests s @ [tts_prompt (fullText data)]"
proof -
  obtain r s4 where e: "ensure_context env
       (s\<lparr>isTtsLoading := True,
          ttsRequests := ttsRequests s @ [tts_prompt (fullText data)],
          consoleLines := consoleLines s @ [],
          isTtsLoading := False\<rparr>) = (r, s4)"
    by (cases "ensure_context env
       (s\<lparr>isTtsLoading := True,
          ttsRequests := ttsRequests s @ [tts_prompt (fullText data)],
          consoleLines := consoleLines s @ [],
          isTtsLoading := False\<rparr>)")
  from ensure_context_frame [OF e] assms(4,5)
  have r: "r = None" and c: "ttsRequests s4 = ttsRequests s @ [tts_prompt (fullText data)]"
    by simp_all
  have h: "handleReadAloud env data s = play (playbackFault env) b s4"
    using assms(1,2,3) e r by (simp add: handleReadAloud_def generateAudio_cases Let_def)
  show "fst (handleReadAloud env data s) = Fulfilled ()"
    by (simp add: h play_flags)
  show "isPlaying (snd (handleReadAloud env data s))"
    using assms(6,7) by (simp add: h play_playing)
  show "ttsRequests (snd (handleReadAloud env data s)) = ttsRequests s @ [tts_prompt (fullText data)]"
    by (simp add: h play_flags c)
qed

lemma playing_only_on_success:
  assumes "\<not> isPlaying s" and "isPlaying (snd (handleReadAloud env data s))"
  shows "\<exists>b buf. tts env (tts_prompt (fullText data)) = TtsReply (Some b) \<and> b \<noteq> []
           \<and> (audioContextRef s \<noteq> None \<or> ctxAvailable env)
           \<and> (ctxSuspended env \<longrightarrow> resumeOk env)
           \<and> decode_path b = Inr buf \<and> playbackFault env = NoFault"
  using assms
  by (auto simp: handleReadAloud_def generateAudio_cases Let_def play_playing
           split: tts_reply.splits option.splits prod.splits if_splits
           dest!: ensure_context_frame)

lemma playing_ref_started_cleanup:
  "playing_ref_started s \<Longrightarrow> playing_ref_started (cleanup s)"
  by (auto simp: playing_ref_started_def cleanup_def nth_list_update split: option.splits)

lemma playing_ref_started_kept:
  "playing_ref_started initialDisplay"
  "playing_ref_started (onended s)"
  "playing_ref_started s \<Longrightarrow> playing_ref_started (snd (handleReadAloud env data s))"
proof -
  show "playing_ref_started initialDisplay"
    by (simp add: playing_ref_started_def initialDisplay_def)
  show "playing_ref_started (onended s)"
    by (simp add: playing_ref_started_def onended_def)
  have p: "playing_ref_started (snd (play flt b s4))" for flt b s4
    by (cases flt)
       (auto simp: play_def playback_error_def playing_ref_started_def Let_def nth_append
             split: sum.splits)
  show "playing_ref_started (snd (handleReadAloud env data s))" if "playing_ref_started s"
  proof (cases "isPlaying s")
    case True
    with that show ?thesis
      by (auto simp: handleReadAloud_def playing_ref_started_def split: option.splits)
  next
    case False
    then have "\<not> isPlaying (snd (handleReadAloud env data s))
        \<or> (\<exists>b s4. snd (handleReadAloud env data s) = snd (play (playbackFault env) b s4))"
      by (auto simp: handleReadAloud_def generateAudio_cases Let_def
               split: tts_reply.splits option.splits prod.splits
               dest!: ensure_context_frame)
    then show ?thesis
    proof (elim disjE exE)
      assume "\<not> isPlaying (snd (handleReadAloud env data s))"
      then show ?thesis by (simp add: playing_ref_started_def)
    next
      fix b s4
      assume "snd (handleReadAloud env data s) = snd (play (playbackFault env) b s4)"
      then show ?thesis by (simp only: p)
    qed
  qed
qed

section \<open>Lemmas: voice input\<close>

lemma performSearch_voice:
  "recognizers (performSearch service now q m s) = recognizers s"
  "recognitionRef (performSearch service now q m s) = recognitionRef s"
  by (simp_all add: performSearch_def performSearch_resume_def performSearch_begin_def
        search_failed_def addToHistory_def Let_def split: sum.splits option.splits)

lemma active_stop:
  "active (s\<lparr>recognizers := stop_recognizer i (recognizers s), speechCalls := c\<rparr>) j
     \<longleftrightarrow> active s j \<and> j \<noteq> i"
  by (auto simp: active_def stop_recognizer_def nth_list_update)

lemma startVoiceSearch_latest:
  assumes "ref_is_latest s"
  shows "ref_is_latest (startVoiceSearch supported s)"
proof (cases supported)
  case False
  with assms show ?thesis by (simp add: startVoiceSearch_def ref_is_latest_def active_def)
next
  case True
  show ?thesis
  proof (cases "recognitionRef s")
    case None
    with assms have "\<not> active s j" for j by (auto simp: ref_is_latest_def)
    with True None show ?thesis
      by (auto simp: startVoiceSearch_def ref_is_latest_def active_def Let_def nth_append
               split: if_splits)
  next
    case (Some i)
    with assms have "active s j \<Longrightarrow> j = i" for j by (auto simp: ref_is_latest_def)
    then have "\<not> (j < length (stop_recognizer i (recognizers s))
                  \<and> status (stop_recognizer i (recognizers s) ! j) = Active)" for j
      using active_stop [where s = s and i = i and c = "speechCalls s" and j = j]
      by (auto simp: active_def)
    with True Some show ?thesis
      by (auto simp: startVoiceSearch_def ref_is_latest_def active_def Let_def nth_append
               split: if_splits)
  qed
qed

lemma step_latest:
  assumes "ref_is_latest s"
  shows "ref_is_latest (step e s)"
proof (cases e)
  case (StartVoiceSearch supported)
  then show ?thesis using startVoiceSearch_latest [OF assms] by simp
next
  case (RecognitionStarted i)
  then show ?thesis using assms by (simp add: ref_is_latest_def active_def onstart_def)
next
  case (RecognitionEnded i)
  then show ?thesis using assms
    by (auto simp: ref_is_latest_def active_def onend_def ended_def nth_list_update
             split: if_splits)
next
  case (RecognitionError i code)
  then show ?thesis using assms by (simp add: ref_is_latest_def active_def onerror_def)
next
  case (Search service now q m)
  then show ?thesis using assms
    by (simp add: ref_is_latest_def active_def performSearch_voice)
qed

lemma run_latest: "ref_is_latest s \<Longrightarrow> ref_is_latest (run evs s)"
  unfolding run_def
proof (induction evs arbitrary: s)
  case Nil
  then show ?case by simp
next
  case (Cons e evs)
  then show ?case by (simp add: step_latest)
qed

lemma initial_latest: "ref_is_latest initialState"
  by (simp add: ref_is_latest_def active_def initialState_def)

section \<open>Recording, the cap of the history, and blank queries\<close>

text \<open>
  What one record does, whatever the state: the new list is made from the list of the
  render in which the handler was made. Every entry of that list with exactly the word (the
  comparison is the equality of the code units, so it is case-sensitive) is removed, a new
  entry with the clock's reading is put in front, and the first 50 entries are kept; the
  list is written to local storage unless \<open>setItem\<close> throws.
\<close>

lemma record_from_closure:
  "history (snd (addToHistory hist (Str w) now s)) =
      take 50 (\<lparr>word = Str w, timestamp = now\<rparr> # filter (\<lambda>h. word h \<noteq> Str w) hist)
   \<and> localStorage_history (snd (addToHistory hist (Str w) now s)) =
      (if setItemThrows s then localStorage_history s
       else Some (history (snd (addToHistory hist (Str w) now s))))"
  by (simp add: history_addToHistory stored_addToHistory strict_eq_Str)

text \<open>
  When no two lookups overlap, recording a, b, a, c (three different words) into an empty
  history gives c, a, b, with the timestamps of the last recording of each.
\<close>

lemma record_abac:
  assumes "history s = []" and "a \<noteq> b" and "a \<noteq> c" and "b \<noteq> c"
  shows "history (record_all [(a, t1), (b, t2), (a, t3), (c, t4)] s) =
          [\<lparr>word = Str c, timestamp = t4\<rparr>, \<lparr>word = Str a, timestamp = t3\<rparr>,
           \<lparr>word = Str b, timestamp = t2\<rparr>]"
  using assms by (auto simp: record_all_def history_addToHistory strict_eq_Str)

text \<open>
  \<open>handleSearch\<close> of the single-file application makes the new list from the state's
  list; its only caller is the form, which does not submit while a lookup is in flight.
\<close>

lemma handleSearch_records:
  assumes "query s = Str q" and "trim q \<noteq> []" and "lookupWord0 service0 q = Inr d"
    and "dot_word d = Some (Str w)"
  shows "history (handleSearch service0 now s) =
           take 50 (\<lparr>word = Str w, timestamp = now\<rparr> # filter (\<lambda>h. word h \<noteq> Str w) (history s))"
  using assms by (simp add: handleSearch_def strict_eq_Str Let_def)

text \<open>
  Claim C3, at two lookups that overlap. The history holds x and w. The form sends a lookup
  of y; the submit button is disabled until it answers, the buttons of the history panel
  are not, and a click on w sends a second lookup. Both run the \<open>performSearch\<close> of the
  render whose history is x, w. The first answers y at time 2 and is recorded: the history
  is y, x, w. The second answers w at time 3; its \<open>addToHistory\<close> reads the list of its
  render, x, w, so the history and the stored list become w, x, and y is lost. Recording w
  in the history y, x, w, as the claim has it, gives w, y, x. Run one after the other,
  the same two lookups do give w, y, x.
\<close>

theorem overlapping_lookup_loses_entry:
  "(let x = \<lparr>word = Str (js ''x''), timestamp = 1\<rparr>;
        w0 = \<lparr>word = Str (js ''w''), timestamp = 0\<rparr>;
        y = \<lparr>word = Str (js ''y''), timestamp = 2\<rparr>;
        w3 = \<lparr>word = Str (js ''w''), timestamp = 3\<rparr>;
        answer_y = (\<lambda>q m. Reply (Some (js ''{\"word\":\"y\"}'')));
        answer_w = (\<lambda>q m. Reply (Some (js ''{\"word\":\"w\"}'')));
        s0 = initialState\<lparr>history := [x, w0], localStorage_history := Some [x, w0]\<rparr>;
        sent = performSearch_begin (js ''w'') EN (performSearch_begin (js ''y'') EN s0);
        s1 = performSearch_resume (history s0) (lookupWord answer_y (js ''y'') EN) 2 sent;
        s2 = performSearch_resume (history s0) (lookupWord answer_w (js ''w'') EN) 3 s1
    in history s1 = [y, x, w0]
       \<and> history s2 = [w3, x]
       \<and> localStorage_history s2 = Some [w3, x]
       \<and> take 50 (w3 # filter (\<lambda>h. word h \<noteq> Str (js ''w'')) (history s1)) = [w3, y, x]
       \<and> history (performSearch answer_w 3 (js ''w'') EN
                    (performSearch answer_y 2 (js ''y'') EN s0)) = [w3, y, x])"
  by code_simp

text \<open>
  What holds of the list after every run of record operations, overlapping lookups
  included, when it starts from lists of at most 50 entries with no word twice: at most
  50 entries, and no word twice. Under a strictly increasing clock the timestamps
  strictly decrease along the list.
\<close>

lemma record_run_invariants:
  assumes "history s = []"
  shows "length (history (record_run ops [] s)) \<le> 50"
    and "distinct (map word (history (record_run ops [] s)))"
    and "sorted_wrt (<) (map (\<lambda>op. snd (snd op)) ops) \<Longrightarrow>
           sorted_wrt (>) (map timestamp (history (record_run ops [] s)))"
proof -
  have "\<forall>l \<in> set (history s # []). length l \<le> 50 \<and> distinct (map word l)"
    using assms by simp
  from record_run_cap_unique [OF this, of ops]
  show "length (history (record_run ops [] s)) \<le> 50"
    and "distinct (map word (history (record_run ops [] s)))" by simp_all
  show "sorted_wrt (>) (map timestamp (history (record_run ops [] s)))"
    if so: "sorted_wrt (<) (map (\<lambda>op. snd (snd op)) ops)"
  proof (cases ops)
    case Nil
    then show ?thesis using assms by simp
  next
    case (Cons op rest)
    have a: "\<forall>l \<in> set (history s # []).
               sorted_wrt (>) (map timestamp l) \<and> (\<forall>h \<in> set l. timestamp h \<le> snd (snd op) - 1)"
      using assms by simp
    have b: "sorted_wrt (<) ((snd (snd op) - 1) # map (\<lambda>op. snd (snd op)) ops)"
      using so Cons by auto
    from record_run_recency [OF a b] show ?thesis .
  qed
qed

text \<open>
  When no two lookups overlap, the words of the list are those recorded, each once, ordered
  by their last recording, the most recent first, cut after 50, every entry with the
  timestamp of the last recording of its word; 55 different words leave the last 50.
\<close>

lemma record_all_recent_words:
  assumes "history s = []"
  shows "map word (history (record_all ops s)) = take 50 (rev (remdups (map (\<lambda>p. Str (fst p)) ops)))"
    and "\<forall>h \<in> set (history (record_all ops s)).
           \<exists>w. word h = Str w \<and> map_of (rev ops) w = Some (timestamp h)"
    and "distinct (map fst ops) \<and> length ops = 55 \<Longrightarrow>
           history (record_all ops s) =
             rev (drop 5 (map (\<lambda>(w, t). \<lparr>word = Str w, timestamp = t\<rparr>) ops))"
proof -
  show "map word (history (record_all ops s)) = take 50 (rev (remdups (map (\<lambda>p. Str (fst p)) ops)))"
    by (rule words_record_all [OF assms])
  show "\<forall>h \<in> set (history (record_all ops s)).
           \<exists>w. word h = Str w \<and> map_of (rev ops) w = Some (timestamp h)"
    by (rule stamps_record_all [OF assms])
  show "history (record_all ops s) =
           rev (drop 5 (map (\<lambda>(w, t). \<lparr>word = Str w, timestamp = t\<rparr>) ops))"
    if d: "distinct (map fst ops) \<and> length ops = 55"
  proof -
    have "history (record_all ops s) = take 50 (rev (map (\<lambda>(w, t). \<lparr>word = Str w, timestamp = t\<rparr>) ops))"
      using d by (simp add: distinct_record_all [OF assms])
    also have "\<dots> = rev (drop 5 (map (\<lambda>(w, t). \<lparr>word = Str w, timestamp = t\<rparr>) ops))"
      using d by (simp add: take_rev)
    finally show ?thesis .
  qed
qed

text \<open>
  Claim C4, at 55 different words of which the last two lookups overlap. The words are
  the code units 0 to 54, recorded at the times 0 to 54; the lookups of the first 53 each
  answer before the next is sent. The lookup of word 53 is sent by the form, and before
  it has answered a voice result sends the lookup of word 54 (the microphone button and
  the result handler do not wait for the lookup in flight): its \<open>performSearch\<close> is
  that of a render in which word 53 was not recorded, so its record reads the list as it
  was before. The list has 50 entries, no word twice, the most recent first; but they are
  the words 54, 52, 51, ..., 4: word 53 is missing and word 4, which is not among the 50
  most recently recorded, is still there. The 50 most recently recorded are 54, 53, ..., 5.
\<close>

theorem overlapping_lookups_miss_recent_word:
  "(let ops = map (\<lambda>i. (if i = 54 then 1 else 0, [of_nat i], int i)) [0..<55];
        h = history (record_run ops [] initialState)
    in h = \<lparr>word = Str [54], timestamp = 54\<rparr>
             # rev (map (\<lambda>i. \<lparr>word = Str [of_nat i], timestamp = int i\<rparr>) [4..<53])
       \<and> length h = 50
       \<and> Str [53] \<notin> set (map word h)
       \<and> Str [4] \<in> set (map word h)
       \<and> h \<noteq> rev (map (\<lambda>i. \<lparr>word = Str [of_nat i], timestamp = int i\<rparr>) [5..<55]))"
  by code_simp

text \<open>
  Claim C8. A query that is empty, or made of white space only, trims to the empty
  string, and then \<open>performSearch\<close> returns the state it was given: the loading flag,
  the displayed result, the history, the stored history and the list of requests sent
  to the lookup service are those of before.
\<close>

theorem blank_query_noop:
  "(trim q = [] \<longleftrightarrow> list_all isTrimSpace q)
   \<and> (trim q = [] \<longrightarrow> performSearch service now q m s = s)"
  by (simp add: trim_Nil_iff performSearch_def)

theorem blank_query_noop_witness:
  "performSearch (\<lambda>w m. Rejected) 0 (js '' '' @ [0x9, 0xA0, 0x3000]) CN initialState = initialState
   \<and> performSearch (\<lambda>w m. Rejected) 0 [] EN initialState = initialState"
proof -
  have t: "trim (js '' '' @ [0x9, 0xA0, 0x3000]) = []" by code_simp
  have n: "trim [] = []" by code_simp
  show ?thesis
    using blank_query_noop [of "js '' '' @ [0x9, 0xA0, 0x3000]" "\<lambda>w m. Rejected" 0 CN initialState]
      blank_query_noop [of "[]" "\<lambda>w m. Rejected" 0 EN initialState] t n
    by simp
qed

section \<open>Malformed and fenced payloads\<close>




text \<open>
  Claim C2, at the payload \<open>{"word":"```"}\<close>. Parsed as it is, the word is the three
  backticks. Wrapped in a fence, the text starts with \<open>```json\<close>, so every \<open>```\<close> is
  removed, the one inside the string value too: \<open>JSON.parse\<close> is handed
  \<open>{"word":""}\<close> between two line feeds and the word is the empty string. On a payload
  without backticks, such as \<open>{"word":"run"}\<close>, the fenced and the plain text parse to
  the same value.
\<close>

theorem fence_removal_alters_content:
  "parse_response (Some (js ''{\"word\":\"```\"}'')) = Inr (Obj [(js ''word'', Str (js ''```''))])
   \<and> jsonStr (fenced (js ''{\"word\":\"```\"}'')) = [0xA] @ js ''{\"word\":\"\"}'' @ [0xA]
   \<and> parse_response (Some (fenced (js ''{\"word\":\"```\"}''))) = Inr (Obj [(js ''word'', Str [])])
   \<and> parse_response (Some (fenced (js ''{\"word\":\"run\"}'')))
       = parse_response (Some (js ''{\"word\":\"run\"}''))
   \<and> parse_response (Some (js ''{\"word\":\"run\"}'')) = Inr (Obj [(js ''word'', Str (js ''run''))])"
  by code_simp

section \<open>The PCM round trip\<close>

text \<open>
  Claim C5, for a sequence that is not empty. Samples written low byte first and encoded
  in base64 come back from the decode path as one channel at 24000 Hz whose i-th value is
  the i-th sample divided by 32768; so normalized samples in \<open>[-1, 1]\<close>, quantized to 16
  bits and sent through the same path, come back within \<open>1/32768\<close> of what they were.
\<close>

theorem pcm_decode_exact:
  "(samples \<noteq> [] \<longrightarrow>
      decode_path (btoa (pcm_bytes samples)) =
        Inr \<lparr>numberOfChannels = 1, bufferLength = length samples, sampleRate = 24000,
             channelData = [map (\<lambda>x. of_int (sint x) / 32768) samples]\<rparr>)
   \<and> (xs \<noteq> [] \<and> list_all (\<lambda>x. - 1 \<le> x \<and> x \<le> 1) xs \<longrightarrow>
        (\<exists>ys. decode_path (btoa (pcm_bytes (map quantize xs))) =
                Inr \<lparr>numberOfChannels = 1, bufferLength = length xs, sampleRate = 24000,
                     channelData = [ys]\<rparr>
              \<and> length ys = length xs
              \<and> (\<forall>i < length xs. \<bar>ys ! i - xs ! i\<bar> \<le> 1 / 32768)))"
proof (intro conjI impI)
  assume "samples \<noteq> []"
  then show "decode_path (btoa (pcm_bytes samples)) =
        Inr \<lparr>numberOfChannels = 1, bufferLength = length samples, sampleRate = 24000,
             channelData = [map (\<lambda>x. of_int (sint x) / 32768) samples]\<rparr>"
    by (rule decode_path_pcm)
next
  assume a: "xs \<noteq> [] \<and> list_all (\<lambda>x. - 1 \<le> x \<and> x \<le> 1) xs"
  let ?ys = "map (\<lambda>x. of_int (sint x) / 32768) (map quantize xs) :: rat list"
  from a have ne: "map quantize xs \<noteq> []" by simp
  have 1: "decode_path (btoa (pcm_bytes (map quantize xs))) =
                Inr \<lparr>numberOfChannels = 1, bufferLength = length xs, sampleRate = 24000,
                     channelData = [?ys]\<rparr>"
    using decode_path_pcm [OF ne] by simp
  have 2: "length ?ys = length xs" by simp
  have 3: "\<forall>i < length xs. \<bar>?ys ! i - xs ! i\<bar> \<le> 1 / 32768"
  proof (intro allI impI)
    fix i assume i: "i < length xs"
    then have "xs ! i \<in> set xs" by simp
    with a have "- 1 \<le> xs ! i" "xs ! i \<le> 1" by (simp_all add: list_all_iff)
    then show "\<bar>?ys ! i - xs ! i\<bar> \<le> 1 / 32768"
      using i quantize_error [of "xs ! i"] by simp
  qed
  show "\<exists>ys. decode_path (btoa (pcm_bytes (map quantize xs))) =
                Inr \<lparr>numberOfChannels = 1, bufferLength = length xs, sampleRate = 24000,
                     channelData = [ys]\<rparr>
              \<and> length ys = length xs
              \<and> (\<forall>i < length xs. \<bar>ys ! i - xs ! i\<bar> \<le> 1 / 32768)"
    using 1 2 3 by (intro exI [of _ ?ys] conjI)
qed

theorem pcm_decode_exact_witness:
  "decode_path (btoa (pcm_bytes [0, 16384, 0x8000, 0x7FFF, 0xFFFF])) =
     Inr \<lparr>numberOfChannels = 1, bufferLength = 5, sampleRate = 24000,
          channelData = [[0, 1 / 2, - 1, 32767 / 32768, - 1 / 32768]]\<rparr>
   \<and> btoa (pcm_bytes [0, 16384, 0x8000, 0x7FFF, 0xFFFF]) = js ''AAAAQACA/3///w==''
   \<and> decode_path (btoa (pcm_bytes (map quantize [1, - 1, 1 / 3]))) =
     Inr \<lparr>numberOfChannels = 1, bufferLength = 3, sampleRate = 24000,
          channelData = [[32767 / 32768, - 1, 10923 / 32768]]\<rparr>"
proof -
  let ?s = "[0, 16384, 0x8000, 0x7FFF, 0xFFFF] :: 16 word list"
  let ?q = "map quantize [1, - 1, 1 / 3]"
  have a: "?s \<noteq> []" "?q \<noteq> []" by simp_all
  have b: "map (\<lambda>x. of_int (sint x) / 32768) ?s = [0, 1 / 2, - 1, 32767 / 32768, - 1 / 32768 :: rat]"
    by code_simp
  have c: "map (\<lambda>x. of_int (sint x) / 32768) ?q = [32767 / 32768, - 1, 10923 / 32768 :: rat]"
    by code_simp
  have d: "btoa (pcm_bytes ?s) = js ''AAAAQACA/3///w==''" by code_simp
  have "decode_path (btoa (pcm_bytes ?s)) =
     Inr \<lparr>numberOfChannels = 1, bufferLength = length ?s, sampleRate = 24000,
          channelData = [map (\<lambda>x. of_int (sint x) / 32768) ?s]\<rparr>"
    using pcm_decode_exact [of ?s] a by blast
  moreover have "decode_path (btoa (pcm_bytes ?q)) =
     Inr \<lparr>numberOfChannels = 1, bufferLength = length ?q, sampleRate = 24000,
          channelData = [map (\<lambda>x. of_int (sint x) / 32768) ?q]\<rparr>"
    using pcm_decode_exact [of ?q] a by blast
  ultimately show ?thesis by (simp only: b c d) simp
qed

text \<open>
  Claim C5 as stated, for every finite sequence, fails on the empty one: its encoding is
  the empty string, which decodes to no bytes, and \<open>createBuffer\<close> refuses a buffer of
  length zero, so the decode path throws a \<open>NotSupportedError\<close> and produces no buffer.
\<close>

theorem empty_pcm_rejected:
  "btoa (pcm_bytes []) = [] \<and> decodeBase64 [] = Inr []
   \<and> decode_path (btoa (pcm_bytes [])) = Inl NotSupportedError"
  by code_simp

section \<open>Narration: toggle, failures, and the audio request\<close>

text \<open>
  Claim C6. In the Playing state, where the ref holds the started source, the handler
  stops that source, empties the ref and clears the playing flag, so the machine is Idle;
  its promise is fulfilled; no audio request is sent and nothing is alerted or logged.
  The condition on the ref holds at the start, and is kept by the handler, by the
  \<open>onended\<close> callback and by the cleanup of the effect.
\<close>

theorem toggle_stops_playback:
  "(Playing s \<and> playing_ref_started s \<longrightarrow>
      fst (handleReadAloud env data s) = Fulfilled ()
      \<and> Idle (snd (handleReadAloud env data s))
      \<and> ttsRequests (snd (handleReadAloud env data s)) = ttsRequests s
      \<and> sourceNodeRef (snd (handleReadAloud env data s)) = None
      \<and> (\<exists>n. sourceNodeRef s = Some n \<and> n < length (sourceNodes s)
               \<and> stopped (sourceNodes (snd (handleReadAloud env data s)) ! n))
      \<and> alertsShown (snd (handleReadAloud env data s)) = alertsShown s
      \<and> consoleLines (snd (handleReadAloud env data s)) = consoleLines s)
   \<and> playing_ref_started initialDisplay
   \<and> playing_ref_started (onended s)
   \<and> (playing_ref_started s \<longrightarrow>
        playing_ref_started (snd (handleReadAloud env data s)) \<and> playing_ref_started (cleanup s))"
proof (intro conjI impI)
  assume a: "Playing s \<and> playing_ref_started s"
  then obtain n where n: "sourceNodeRef s = Some n" "n < length (sourceNodes s)"
      "started (sourceNodes s ! n)" and p: "isPlaying s" and l: "\<not> isTtsLoading s"
    by (auto simp: Playing_def playing_ref_started_def split: option.splits)
  have h: "handleReadAloud env data s =
      (Fulfilled (),
       s\<lparr>sourceNodes := (sourceNodes s)[n := (sourceNodes s ! n)\<lparr>stopped := True\<rparr>],
         sourceNodeRef := None, isPlaying := False\<rparr>)"
    using n p by (simp add: handleReadAloud_def)
  show "fst (handleReadAloud env data s) = Fulfilled ()" by (simp add: h)
  show "Idle (snd (handleReadAloud env data s))" using l by (simp add: h Idle_def)
  show "ttsRequests (snd (handleReadAloud env data s)) = ttsRequests s" by (simp add: h)
  show "sourceNodeRef (snd (handleReadAloud env data s)) = None" by (simp add: h)
  show "\<exists>n. sourceNodeRef s = Some n \<and> n < length (sourceNodes s)
               \<and> stopped (sourceNodes (snd (handleReadAloud env data s)) ! n)"
    using n by (simp add: h)
  show "alertsShown (snd (handleReadAloud env data s)) = alertsShown s" by (simp add: h)
  show "consoleLines (snd (handleReadAloud env data s)) = consoleLines s" by (simp add: h)
next
  show "playing_ref_started initialDisplay" by (rule playing_ref_started_kept(1))
  show "playing_ref_started (onended s)" by (rule playing_ref_started_kept(2))
  show "playing_ref_started (snd (handleReadAloud env data s))" if "playing_ref_started s"
    using that by (rule playing_ref_started_kept(3))
  show "playing_ref_started (cleanup s)" if "playing_ref_started s"
    using that by (rule playing_ref_started_cleanup)
qed

theorem toggle_stops_playback_witness:
  "Playing (snd (handleReadAloud (demo_env (TtsReply (Some (js ''AAAAQACA/3///w=='')))) demo_word
             initialDisplay))
   \<and> Idle (snd (handleReadAloud (demo_env TtsRejected) demo_word
        (snd (handleReadAloud (demo_env (TtsReply (Some (js ''AAAAQACA/3///w=='')))) demo_word
             initialDisplay))))
   \<and> length (ttsRequests (snd (handleReadAloud (demo_env TtsRejected) demo_word
        (snd (handleReadAloud (demo_env (TtsReply (Some (js ''AAAAQACA/3///w=='')))) demo_word
             initialDisplay))))) = 1"
proof -
  let ?b = "js ''AAAAQACA/3///w==''"
  let ?e = "demo_env (TtsReply (Some ?b))"
  let ?s1 = "snd (handleReadAloud ?e demo_word initialDisplay)"
  have i: "\<not> isPlaying initialDisplay" "ttsRequests initialDisplay = []"
    by (simp_all add: initialDisplay_def)
  have b: "btoa (pcm_bytes [0, 16384, 0x8000, 0x7FFF, 0xFFFF]) = ?b" by code_simp
  have d: "decode_path ?b =
     Inr \<lparr>numberOfChannels = 1, bufferLength = length [0, 16384, 0x8000, 0x7FFF, 0xFFFF :: 16 word],
          sampleRate = 24000,
          channelData = [map (\<lambda>x. of_int (sint x) / 32768) [0, 16384, 0x8000, 0x7FFF, 0xFFFF :: 16 word]]\<rparr>"
    using decode_path_pcm [of "[0, 16384, 0x8000, 0x7FFF, 0xFFFF]", simplified list.distinct not_False_eq_True]
    by (simp only: b)
  have e: "tts ?e (tts_prompt (fullText demo_word)) = TtsReply (Some ?b)" "?b \<noteq> []"
    "audioContextRef initialDisplay \<noteq> None \<or> ctxAvailable ?e" "ctxSuspended ?e \<longrightarrow> resumeOk ?e"
    "playbackFault ?e = NoFault"
    by (simp_all add: demo_env_def js_def)
  have pl: "isPlaying ?s1" by (rule playing_on_success(2) [OF i(1) e(1,2,3,4) d e(5)])
  have rq: "length (ttsRequests ?s1) = 1"
    by (simp add: playing_on_success(3) [OF i(1) e(1,2,3,4) d e(5)] i(2))
  have nl: "\<not> isTtsLoading ?s1" by (rule not_loading_after [OF i(1)])
  have p: "Playing ?s1 \<and> playing_ref_started ?s1"
    using pl nl toggle_stops_playback [of initialDisplay ?e demo_word]
    by (simp add: Playing_def)
  from toggle_stops_playback [of ?s1 "demo_env TtsRejected" demo_word] p
  have "Idle (snd (handleReadAloud (demo_env TtsRejected) demo_word ?s1))
        \<and> ttsRequests (snd (handleReadAloud (demo_env TtsRejected) demo_word ?s1)) = ttsRequests ?s1"
    by simp
  with p rq show ?thesis by simp
qed


text \<open>
  Claim C7, at a payload that arrived while the audio context cannot be had. The lines that
  construct and resume the context (71 to 78) stand before the \<open>try\<close> block, so an
  exception there is not caught: with no \<open>AudioContext\<close> constructor the handler's
  promise is rejected with a \<open>TypeError\<close>, and when \<open>resume()\<close> is refused with the
  rejection of \<open>resume()\<close>; no alert is shown and nothing is logged. The flags are those
  of Idle. With the context there, a payload that cannot be decoded (\<open>AAAA\<close> holds three
  bytes) is caught and logged by the \<open>try\<close> block, as the claim has it.
\<close>

theorem context_failure_unreported:
  "fst (handleReadAloud ((demo_env (TtsReply (Some (js ''AAAAQACA/3///w==''))))\<lparr>ctxAvailable := False\<rparr>)
          demo_word initialDisplay) = RejectedWith TypeError
   \<and> alertsShown (snd (handleReadAloud
        ((demo_env (TtsReply (Some (js ''AAAAQACA/3///w==''))))\<lparr>ctxAvailable := False\<rparr>)
        demo_word initialDisplay)) = []
   \<and> consoleLines (snd (handleReadAloud
        ((demo_env (TtsReply (Some (js ''AAAAQACA/3///w==''))))\<lparr>ctxAvailable := False\<rparr>)
        demo_word initialDisplay)) = []
   \<and> Idle (snd (handleReadAloud
        ((demo_env (TtsReply (Some (js ''AAAAQACA/3///w==''))))\<lparr>ctxAvailable := False\<rparr>)
        demo_word initialDisplay))
   \<and> fst (handleReadAloud ((demo_env (TtsReply (Some (js ''AAAAQACA/3///w==''))))\<lparr>resumeOk := False\<rparr>)
          demo_word initialDisplay) = RejectedWith InvalidStateError
   \<and> alertsShown (snd (handleReadAloud
        ((demo_env (TtsReply (Some (js ''AAAAQACA/3///w==''))))\<lparr>resumeOk := False\<rparr>)
        demo_word initialDisplay)) = []
   \<and> consoleLines (snd (handleReadAloud
        ((demo_env (TtsReply (Some (js ''AAAAQACA/3///w==''))))\<lparr>resumeOk := False\<rparr>)
        demo_word initialDisplay)) = []
   \<and> Idle (snd (handleReadAloud
        ((demo_env (TtsReply (Some (js ''AAAAQACA/3///w==''))))\<lparr>resumeOk := False\<rparr>)
        demo_word initialDisplay))
   \<and> fst (handleReadAloud (demo_env (TtsReply (Some (js ''AAAA'')))) demo_word initialDisplay)
       = Fulfilled ()
   \<and> consoleLines (snd (handleReadAloud (demo_env (TtsReply (Some (js ''AAAA'')))) demo_word
        initialDisplay)) = [''Audio Playback Error:'']"
proof -
  let ?e = "demo_env (TtsReply (Some (js ''AAAA'')))"
  have n: "\<not> isPlaying initialDisplay" by (simp add: initialDisplay_def)
  have e: "tts ?e (tts_prompt (fullText demo_word)) = TtsReply (Some (js ''AAAA''))"
    by (simp add: demo_env_def)
  have ne: "js ''AAAA'' \<noteq> []" by (simp add: js_def)
  have c: "audioContextRef initialDisplay \<noteq> None \<or> ctxAvailable ?e" by (simp add: demo_env_def)
  have r: "ctxSuspended ?e \<longrightarrow> resumeOk ?e" by (simp add: demo_env_def)
  have b: "btoa [0, 0, 0] = js ''AAAA''" by code_simp
  have "decodeBase64 (js ''AAAA'') = Inr [0, 0, 0]"
    using decodeBase64_btoa [of "[0, 0, 0]"] by (simp only: b)
  then have "decode_path (js ''AAAA'') = Inl RangeError"
    by (simp add: decode_path_def decodeAudioData_def Int16Array_def)
  then have d: "(\<exists>x. decode_path (js ''AAAA'') = Inl x) \<or> playbackFault ?e \<noteq> NoFault" by simp
  have 1: "fst (handleReadAloud ?e demo_word initialDisplay) = Fulfilled ()"
    by (rule playback_failure_logged(1) [OF n e ne c r d])
  have 2: "consoleLines (snd (handleReadAloud ?e demo_word initialDisplay))
             = [''Audio Playback Error:'']"
    using playback_failure_logged(3) [OF n e ne c r d] by (simp add: initialDisplay_def)
  show ?thesis
    by (intro conjI 1 2)
       (simp_all add: handleReadAloud_def generateAudio_cases demo_env_def initialDisplay_def
          ensure_context_def Idle_def js_def Let_def)
qed

text \<open>
  Claim C10. \<open>generateAudio\<close> always fulfils its promise: when the request is rejected
  the exception is caught, a line is logged and the result is \<open>undefined\<close>, the result of
  a response without data. \<open>handleReadAloud\<close> is fulfilled as well, and it shows the same
  alert and ends Idle whether the request was rejected or brought no data.
\<close>

theorem generateAudio_total:
  "(\<exists>r. fst (generateAudio audio text) = Fulfilled r)
   \<and> (audio (tts_prompt text) = TtsRejected \<longrightarrow>
        generateAudio audio text = (Fulfilled None, [''TTS Generation failed'']))
   \<and> (audio (tts_prompt text) = TtsReply d \<longrightarrow> generateAudio audio text = (Fulfilled d, []))
   \<and> fst (generateAudio (\<lambda>p. TtsRejected) text) = fst (generateAudio (\<lambda>p. TtsReply None) text)
   \<and> (\<not> isPlaying s \<and> tts env (tts_prompt (fullText data)) = TtsRejected \<longrightarrow>
        fst (handleReadAloud env data s) = Fulfilled ()
        \<and> fst (handleReadAloud env data s)
            = fst (handleReadAloud (env\<lparr>tts := \<lambda>p. TtsReply None\<rparr>) data s)
        \<and> alertsShown (snd (handleReadAloud env data s))
            = alertsShown (snd (handleReadAloud (env\<lparr>tts := \<lambda>p. TtsReply None\<rparr>) data s))
        \<and> Idle (snd (handleReadAloud env data s)))"
proof (intro conjI impI)
  show "\<exists>r. fst (generateAudio audio text) = Fulfilled r"
    by (simp add: generateAudio_cases split: tts_reply.splits)
  show "generateAudio audio text = (Fulfilled None, [''TTS Generation failed''])"
    if "audio (tts_prompt text) = TtsRejected"
    using that by (simp add: generateAudio_cases)
  show "generateAudio audio text = (Fulfilled d, [])" if "audio (tts_prompt text) = TtsReply d"
    using that by (simp add: generateAudio_cases)
  show "fst (generateAudio (\<lambda>p. TtsRejected) text) = fst (generateAudio (\<lambda>p. TtsReply None) text)"
    by (simp add: generateAudio_cases)
next
  assume a: "\<not> isPlaying s \<and> tts env (tts_prompt (fullText data)) = TtsRejected"
  then have n: "\<not> isPlaying s" and r: "tts env (tts_prompt (fullText data)) = TtsRejected"
    by simp_all
  have r1: "tts env (tts_prompt (fullText data)) = TtsRejected
         \<or> tts env (tts_prompt (fullText data)) = TtsReply None
         \<or> tts env (tts_prompt (fullText data)) = TtsReply (Some [])" using r by simp
  let ?env = "env\<lparr>tts := \<lambda>p. TtsReply None\<rparr>"
  have r2: "tts ?env (tts_prompt (fullText data)) = TtsRejected
         \<or> tts ?env (tts_prompt (fullText data)) = TtsReply None
         \<or> tts ?env (tts_prompt (fullText data)) = TtsReply (Some [])" by simp
  show "fst (handleReadAloud env data s) = Fulfilled ()"
    by (rule no_payload_alert(1) [OF n r1])
  show "fst (handleReadAloud env data s) = fst (handleReadAloud ?env data s)"
    by (simp only: no_payload_alert(1) [OF n r1] no_payload_alert(1) [OF n r2])
  show "alertsShown (snd (handleReadAloud env data s))
            = alertsShown (snd (handleReadAloud ?env data s))"
    by (simp only: no_payload_alert(3) [OF n r1] no_payload_alert(3) [OF n r2])
  show "Idle (snd (handleReadAloud env data s))"
    using not_loading_after [OF n] no_payload_alert(2) [OF n r1] by (simp add: Idle_def)
qed

theorem generateAudio_total_witness:
  "generateAudio (\<lambda>p. TtsRejected) (js ''run'') = (Fulfilled None, [''TTS Generation failed''])
   \<and> generateAudio (\<lambda>p. TtsReply None) (js ''run'') = (Fulfilled None, [])
   \<and> fst (handleReadAloud (demo_env TtsRejected) demo_word initialDisplay) = Fulfilled ()"
proof -
  note T1 = generateAudio_total [of "\<lambda>p. TtsRejected" "js ''run''" None initialDisplay
              "demo_env TtsRejected" demo_word]
  note T2 = generateAudio_total [of "\<lambda>p. TtsReply None" "js ''run''" None initialDisplay
              "demo_env TtsRejected" demo_word]
  have i: "\<not> isPlaying initialDisplay
           \<and> tts (demo_env TtsRejected) (tts_prompt (fullText demo_word)) = TtsRejected"
    by (simp add: initialDisplay_def demo_env_def)
  have 1: "generateAudio (\<lambda>p. TtsRejected) (js ''run'') = (Fulfilled None, [''TTS Generation failed''])"
    by (rule T1 [THEN conjunct2, THEN conjunct1, rule_format]) (rule refl)
  have 2: "generateAudio (\<lambda>p. TtsReply None) (js ''run'') = (Fulfilled None, [])"
    by (rule T2 [THEN conjunct2, THEN conjunct2, THEN conjunct1, rule_format]) (rule refl)
  have 3: "fst (handleReadAloud (demo_env TtsRejected) demo_word initialDisplay) = Fulfilled ()"
    by (rule T1 [THEN conjunct2, THEN conjunct2, THEN conjunct2, THEN conjunct2, rule_format,
                 THEN conjunct1]) (rule i)
  show ?thesis by (intro conjI 1 2 3)
qed

section \<open>One recognizer at a time\<close>

text \<open>
  Claim C9. When \<open>startVoiceSearch\<close> runs while the recognizer of the ref is active,
  \<open>stop()\<close> is called on that recognizer and then \<open>start()\<close> on the new one: afterwards
  the old one is stopped, the new one is active and the ref names it. After any sequence of
  events from the initial state at most one recognizer is active.
\<close>

theorem one_active_recognizer:
  "(recognitionRef s = Some i \<and> active s i \<longrightarrow>
      \<not> active (startVoiceSearch True s) i
      \<and> status (recognizers (startVoiceSearch True s) ! i) = Stopped
      \<and> active (startVoiceSearch True s) (length (recognizers s))
      \<and> recognitionRef (startVoiceSearch True s) = Some (length (recognizers s))
      \<and> speechCalls (startVoiceSearch True s) =
          speechCalls s @ [StopCall i, StartCall (length (recognizers s))])
   \<and> (active (run evs initialState) j \<and> active (run evs initialState) k \<longrightarrow> j = k)"
proof (intro conjI impI)
  assume a: "recognitionRef s = Some i \<and> active s i"
  then have r: "recognitionRef s = Some i" and i: "i < length (recognizers s)"
    and st: "status (recognizers s ! i) = Active" by (simp_all add: active_def)
  have l: "length (stop_recognizer i (recognizers s)) = length (recognizers s)"
    by (simp add: stop_recognizer_def)
  have n: "stop_recognizer i (recognizers s) ! i = (recognizers s ! i)\<lparr>status := Stopped\<rparr>"
    using i st by (simp add: stop_recognizer_def)
  show "\<not> active (startVoiceSearch True s) i"
    using r i by (simp add: startVoiceSearch_def active_def Let_def nth_append l n)
  show "status (recognizers (startVoiceSearch True s) ! i) = Stopped"
    using r i by (simp add: startVoiceSearch_def Let_def nth_append l n)
  show "active (startVoiceSearch True s) (length (recognizers s))"
    using r by (simp add: startVoiceSearch_def active_def Let_def nth_append l)
  show "recognitionRef (startVoiceSearch True s) = Some (length (recognizers s))"
    using r by (simp add: startVoiceSearch_def Let_def l)
  show "speechCalls (startVoiceSearch True s) =
          speechCalls s @ [StopCall i, StartCall (length (recognizers s))]"
    using r by (simp add: startVoiceSearch_def Let_def l)
next
  assume a: "active (run evs initialState) j \<and> active (run evs initialState) k"
  have "ref_is_latest (run evs initialState)" by (rule run_latest [OF initial_latest])
  with a have "recognitionRef (run evs initialState) = Some j"
    "recognitionRef (run evs initialState) = Some k" by (simp_all add: ref_is_latest_def)
  then show "j = k" by simp
qed

theorem one_active_recognizer_witness:
  "\<not> active (run [StartVoiceSearch True, RecognitionStarted 0, StartVoiceSearch True] initialState) 0
   \<and> active (run [StartVoiceSearch True, RecognitionStarted 0, StartVoiceSearch True] initialState) 1
   \<and> speechCalls (run [StartVoiceSearch True, RecognitionStarted 0, StartVoiceSearch True]
         initialState) = [StartCall 0, StopCall 0, StartCall 1]"
proof -
  let ?s = "run [StartVoiceSearch True, RecognitionStarted 0] initialState"
  have s: "recognitionRef ?s = Some 0 \<and> active ?s 0" "length (recognizers ?s) = 1"
     "speechCalls ?s = [StartCall 0]"
    by code_simp+
  have e: "run [StartVoiceSearch True, RecognitionStarted 0, StartVoiceSearch True] initialState
           = startVoiceSearch True ?s"
    by (simp add: run_def)
  note T = one_active_recognizer [of ?s 0, THEN conjunct1, rule_format, OF s(1)]
  show ?thesis
    unfolding e using T by (simp only: s(2,3)) simp
qed

end
